theory Spec2Isabelle
  imports Complex_Main "HOL-Library.Word" "HOL-Library.Signed_Division" "HOL-Library.Multiset"
begin

unbundle bit_operations_syntax

section \<open>Berserk's network evaluation (src/nn.c)\<close>

text \<open>
  The evaluation core of the engine: a quantised network with one hidden layer, whose
  hidden activations (an Accumulator per perspective and ply) are either computed from
  the whole board (\<open>RefreshAccumulator\<close>) or derived from the previous ply
  (\<open>ApplyUpdates\<close>), and an output layer over both perspectives.

  Machine integers are words: \<open>int16_t\<close> is \<open>16 word\<close>, \<open>int\<close> and \<open>int32_t\<close> are
  \<open>32 word\<close>, a bitboard is \<open>64 word\<close>. Addition, subtraction and multiplication wrap
  around, which is what the compiled code and the vector instructions do; \<open>sint\<close> reads a
  word as the signed number it stands for.
\<close>

subsection \<open>Data\<close>

type_synonym int16_t = "16 word"
type_synonym int32_t = "32 word"
type_synonym uint64_t = "64 word"
type_synonym BitBoard = "64 word"

text \<open>\<open>typedef int16_t Accumulator[N_HIDDEN]\<close>: a list of \<open>N_HIDDEN\<close> lanes.\<close>

type_synonym Accumulator = "int16_t list"

text \<open>
  The compile-time geometry comes from headers that are not among the sources at hand
  (\<open>N_FEATURES\<close>, \<open>N_HIDDEN\<close>, \<open>FeatureIdx\<close>, the piece index behind
  \<open>PieceBB(KING, c)\<close>), and so does the platform's reading of four bytes as a
  \<open>float\<close>. They are parameters of the model, collected in one record.
  \<open>FeatureIdx pc sq kingSq perspective\<close> is the feature index of piece \<open>pc\<close> on
  square \<open>sq\<close>; \<open>KingPiece c\<close> is the index of colour \<open>c\<close>'s king in
  \<open>pieces\<close>. \<open>FloatFinite\<close> tells whether four bytes are a finite \<open>float\<close> (not an
  infinity, not a NaN), and \<open>FloatOfBytes\<close> is the value of a finite \<open>float\<close> object
  given by its four bytes.
\<close>

record Geometry =
  N_FEATURES :: nat
  N_HIDDEN :: nat
  FeatureIdx :: "int \<Rightarrow> nat \<Rightarrow> nat \<Rightarrow> nat \<Rightarrow> nat"
  KingPiece :: "nat \<Rightarrow> nat"
  FloatFinite :: "8 word list \<Rightarrow> bool"
  FloatOfBytes :: "8 word list \<Rightarrow> real"

text \<open>The global weight arrays of nn.c, and the hash of the loaded net.\<close>

record Weights =
  FEATURE_WEIGHTS :: "int16_t list"
  HIDDEN_BIASES :: "int16_t list"
  HIDDEN_WEIGHTS :: "int16_t list"
  OUTPUT_BIAS :: int32_t
  DEFAULT_NN_HASH :: uint64_t

text \<open>
  Modelled from the spec: the \<open>Board\<close> struct of this version is declared in a header
  that is not among the sources. The record has the fields that nn.c reads or writes:
  the board's occupancy (\<open>pieces\<close>, \<open>occupancies\<close>, \<open>squares\<close>), the two sides, the
  ply and the ply-indexed Accumulator history, \<open>accumulators\<close>, indexed by perspective,
  then ply, then lane. Everything else a board holds is the record's extension.
\<close>

record Board =
  pieces :: "BitBoard list"
  occupancies :: "BitBoard list"
  squares :: "int list"
  stm :: nat
  xstm :: nat
  ply :: nat
  accumulators :: "Accumulator list list"

text \<open>
  Modelled from the spec: \<open>NNUpdate\<close> is declared in a header that is not among the
  sources. It is the diff of one move for one perspective, a list of removed and a list
  of added feature indices; \<open>nr\<close> and \<open>na\<close> are the numbers of entries in use, and the
  fields are the ones \<open>ApplyUpdates\<close> reads.
\<close>

record NNUpdate =
  nr :: nat
  na :: nat
  removals :: "nat list"
  additions :: "nat list"

subsection \<open>Reading and writing one Accumulator of the board\<close>

definition acc_at :: "'a Board_scheme \<Rightarrow> nat \<Rightarrow> nat \<Rightarrow> Accumulator" where
  "acc_at board c p = accumulators board ! c ! p"

definition store_acc :: "'a Board_scheme \<Rightarrow> nat \<Rightarrow> nat \<Rightarrow> Accumulator \<Rightarrow> 'a Board_scheme" where
  "store_acc board c p a =
     board\<lparr>accumulators := (accumulators board)[c := (accumulators board ! c)[p := a]]\<rparr>"

text \<open>\<open>board->accumulators[c][p][j] = v\<close>\<close>

definition store_lane :: "'a Board_scheme \<Rightarrow> nat \<Rightarrow> nat \<Rightarrow> nat \<Rightarrow> int16_t \<Rightarrow> 'a Board_scheme" where
  "store_lane board c p j v = store_acc board c p ((acc_at board c p)[j := v])"

subsection \<open>ApplyUpdates\<close>

text \<open>
  \<open>output\<close> and \<open>prev\<close> are pointers into the board, so every lane is read from and
  written to the board itself, in the order of the loops. \<open>ply board - 1\<close> is the
  previous ply for \<open>0 < ply board\<close>; at ply 0 the C code would index before the array.
\<close>

definition ApplyUpdates :: "Geometry \<Rightarrow> Weights \<Rightarrow> 'a Board_scheme \<Rightarrow> nat \<Rightarrow> NNUpdate \<Rightarrow> 'a Board_scheme" where
  "ApplyUpdates g w board c updates =
     (let output = ply board; prev = ply board - 1; n = N_HIDDEN g in
      if nr updates \<noteq> 0 then
        let b1 = fold (\<lambda>j b. store_lane b c output j
                   (acc_at b c prev ! j - FEATURE_WEIGHTS w ! (removals updates ! 0 * n + j)))
                   [0..<n] board;
            b2 = fold (\<lambda>i. fold (\<lambda>j b. store_lane b c output j
                   (acc_at b c output ! j - FEATURE_WEIGHTS w ! (removals updates ! i * n + j)))
                   [0..<n]) [1..<nr updates] b1;
            b3 = fold (\<lambda>i. fold (\<lambda>j b. store_lane b c output j
                   (acc_at b c output ! j + FEATURE_WEIGHTS w ! (additions updates ! i * n + j)))
                   [0..<n]) [0..<na updates] b2
        in b3
      else store_acc board c output (take n (acc_at board c prev)))"

text \<open>
  The accesses of \<open>ApplyUpdates\<close> stay inside the arrays: the perspective and the ply
  index an Accumulator, the ply has a predecessor, and every Accumulator has
  \<open>N_HIDDEN\<close> lanes.
\<close>

definition board_ok :: "Geometry \<Rightarrow> 'a Board_scheme \<Rightarrow> nat \<Rightarrow> bool" where
  "board_ok g board c \<longleftrightarrow>
     c < length (accumulators board) \<and> 0 < ply board \<and>
     ply board < length (accumulators board ! c) \<and>
     length (acc_at board c (ply board)) = N_HIDDEN g \<and>
     length (acc_at board c (ply board - 1)) = N_HIDDEN g"


subsection \<open>RefreshAccumulator\<close>

text \<open>
  Modelled from the spec: \<open>lsb\<close> of bits.h, which is not among the sources. The
  refresh takes the king square of the perspective from the king's bitboard: \<open>lsb\<close> is
  the index of the least significant set bit (64 for an empty bitboard, where the C
  builtin is undefined).
\<close>

definition lsb :: "BitBoard \<Rightarrow> nat" where
  "lsb bb = length (takeWhile (\<lambda>n. \<not> bit bb n) [0..<64])"

text \<open>
  Modelled from the spec: \<open>popAndGetLsb\<close> of bits.h, which is not among the sources.
  The refresh visits every occupied square, each once: \<open>popAndGetLsb\<close> returns the
  index of the least significant set bit and the bitboard with that bit cleared.
\<close>

definition popAndGetLsb :: "BitBoard \<Rightarrow> nat \<times> BitBoard" where
  "popAndGetLsb bb = (lsb bb, unset_bit (lsb bb) bb)"

text \<open>The third enumerator of \<open>enum { WHITE, BLACK, BOTH }\<close> (types.h).\<close>

definition BOTH :: nat where
  "BOTH = 2"

text \<open>
  Modelled from the spec: the macro \<open>PieceBB\<close> of board.h, which is not among the
  sources, at \<open>KING\<close>: the bitboard of the king of colour \<open>c\<close>, read from the board's
  \<open>pieces\<close>.
\<close>

definition PieceBB_KING :: "Geometry \<Rightarrow> 'a Board_scheme \<Rightarrow> nat \<Rightarrow> BitBoard" where
  "PieceBB_KING g board c = pieces board ! KingPiece g c"

text \<open>
  Modelled from the spec: the macro \<open>OccBB\<close> of board.h, which is not among the
  sources: the occupancy bitboard of colour \<open>c\<close>, or of both, read from the board's
  \<open>occupancies\<close>.
\<close>

definition OccBB :: "'a Board_scheme \<Rightarrow> nat \<Rightarrow> BitBoard" where
  "OccBB board c = occupancies board ! c"

text \<open>
  The inner loop
  \<open>for (i = 0; i < N_HIDDEN; i++) accumulator[i] += FEATURE_WEIGHTS[feature * N_HIDDEN + i]\<close>.
\<close>

definition add_feature :: "Geometry \<Rightarrow> Weights \<Rightarrow> nat \<Rightarrow> Accumulator \<Rightarrow> Accumulator" where
  "add_feature g w feature accumulator =
     fold (\<lambda>i acc. acc[i := acc ! i + FEATURE_WEIGHTS w ! (feature * N_HIDDEN g + i)])
       [0..<N_HIDDEN g] accumulator"

text \<open>The body of the \<open>while\<close> loop for the square \<open>sq\<close>.\<close>

definition refresh_square ::
  "Geometry \<Rightarrow> Weights \<Rightarrow> 'a Board_scheme \<Rightarrow> nat \<Rightarrow> nat \<Rightarrow> nat \<Rightarrow> Accumulator \<Rightarrow> Accumulator" where
  "refresh_square g w board kingSq perspective sq accumulator =
     (let pc = squares board ! sq;
          feature = FeatureIdx g pc sq kingSq perspective
      in add_feature g w feature accumulator)"

text \<open>\<open>while (occ) { int sq = popAndGetLsb(&occ); ... }\<close>\<close>

function refresh_loop ::
  "Geometry \<Rightarrow> Weights \<Rightarrow> 'a Board_scheme \<Rightarrow> nat \<Rightarrow> nat \<Rightarrow> BitBoard \<Rightarrow> Accumulator \<Rightarrow> Accumulator" where
  "refresh_loop g w board kingSq perspective occ accumulator =
     (if occ = 0 then accumulator
      else refresh_loop g w board kingSq perspective (snd (popAndGetLsb occ))
             (refresh_square g w board kingSq perspective (fst (popAndGetLsb occ)) accumulator))"
  by pat_completeness auto
termination
proof (relation "measure (\<lambda>(g, w, board, kingSq, perspective, occ, accumulator). card {n. bit occ n})")
  show "wf (measure (\<lambda>(g :: Geometry, w :: Weights, board :: 'a Board_scheme, kingSq :: nat,
      perspective :: nat, occ :: BitBoard, accumulator :: Accumulator). card {n. bit occ n}))"
    by simp
next
  fix g :: Geometry and w :: Weights and board :: "'a Board_scheme" and kingSq perspective :: nat
    and occ :: BitBoard and accumulator :: Accumulator
  assume nz: "occ \<noteq> 0"
  have "\<exists>n. bit occ n"
  proof (rule ccontr)
    assume "\<not> (\<exists>n. bit occ n)"
    then have "occ = 0" by (intro bit_word_eqI) simp
    with nz show False by simp
  qed
  then obtain n where n: "bit occ n" ..
  then have n64: "n < 64" using bit_imp_le_length [of occ n] by simp
  have "lsb occ < 64"
  proof (rule ccontr)
    assume "\<not> lsb occ < 64"
    then have "length (takeWhile (\<lambda>n. \<not> bit occ n) [0..<64]) = length [0..<64::nat]"
      using length_takeWhile_le [of "\<lambda>n. \<not> bit occ n" "[0..<64]"] by (simp add: lsb_def)
    then have "takeWhile (\<lambda>n. \<not> bit occ n) [0..<64] = [0..<64]"
      using takeWhile_eq_take [of "\<lambda>n. \<not> bit occ n" "[0..<64]"] by simp
    then have "\<forall>m \<in> set [0..<64]. \<not> bit occ m"
      by (simp only: takeWhile_eq_all_conv)
    with n n64 show False by simp
  qed
  then have low: "bit occ (lsb occ)"
    using nth_length_takeWhile [of "\<lambda>n. \<not> bit occ n" "[0..<64]"] by (simp add: lsb_def)
  have "{n. bit (unset_bit (lsb occ) occ) n} = {n. bit occ n} - {lsb occ}"
    by (auto simp: bit_unset_bit_iff)
  moreover have "card ({n. bit occ n} - {lsb occ}) < card {n. bit occ n}"
    using low by (intro card_Diff1_less) simp_all
  ultimately have "card {n. bit (unset_bit (lsb occ) occ) n} < card {n. bit occ n}"
    by (simp only:)
  then show "((g, w, board, kingSq, perspective, snd (popAndGetLsb occ),
        refresh_square g w board kingSq perspective (fst (popAndGetLsb occ)) accumulator),
       (g, w, board, kingSq, perspective, occ, accumulator))
      \<in> measure (\<lambda>(g, w, board, kingSq, perspective, occ, accumulator). card {n. bit occ n})"
    by (simp add: popAndGetLsb_def)
qed

declare refresh_loop.simps [simp del]

text \<open>
  \<open>memcpy(accumulator, HIDDEN_BIASES, sizeof(Accumulator))\<close> overwrites all
  \<open>N_HIDDEN\<close> lanes of the caller's array, so the result does not depend on what the
  array held before.
\<close>

definition RefreshAccumulator ::
  "Geometry \<Rightarrow> Weights \<Rightarrow> 'a Board_scheme \<Rightarrow> nat \<Rightarrow> Accumulator" where
  "RefreshAccumulator g w board perspective =
     (let kingSq = lsb (PieceBB_KING g board perspective);
          accumulator = take (N_HIDDEN g) (HIDDEN_BIASES w);
          occ = OccBB board BOTH
      in refresh_loop g w board kingSq perspective occ accumulator)"

subsection \<open>OutputLayer\<close>

text \<open>
  \<open>int\<close> arithmetic is 32-bit two's complement. C leaves the overflow of a signed
  addition or multiplication undefined; the model wraps around, which is what the vector
  additions are specified to do and what the scalar code compiles to. A lane of an
  Accumulator or a weight is promoted to \<open>int\<close> by sign extension (\<open>scast\<close>).
\<close>

definition QUANTIZATION_PRECISION_IN :: int32_t where
  "QUANTIZATION_PRECISION_IN = 32"

definition QUANTIZATION_PRECISION_OUT :: int32_t where
  "QUANTIZATION_PRECISION_OUT = 512"

text \<open>C's \<open>/\<close> on \<open>int\<close>, which truncates towards zero.\<close>

definition c_div :: "int32_t \<Rightarrow> int32_t \<Rightarrow> int32_t" where
  "c_div a b = word_of_int (sint a sdiv sint b)"

text \<open>
  Modelled from the spec: the macro \<open>max\<close> of util.h, which is not among the sources,
  on \<open>int\<close>. \<open>max(value, 0)\<close> is the clipped rectification: it clamps a negative
  value to zero and leaves any other value unchanged.
\<close>

definition c_max :: "int32_t \<Rightarrow> int32_t \<Rightarrow> int32_t" where
  "c_max a b = (if sint a > sint b then a else b)"

text \<open>The scalar kernel (neither \<open>__AVX2__\<close> nor \<open>__SSE__\<close>).\<close>

definition OutputLayer_scalar :: "Geometry \<Rightarrow> Weights \<Rightarrow> Accumulator \<Rightarrow> Accumulator \<Rightarrow> int32_t" where
  "OutputLayer_scalar g w stm_acc xstm_acc =
     (let result0 = OUTPUT_BIAS w * QUANTIZATION_PRECISION_IN;
          result1 = fold (\<lambda>i result.
                      (result + c_max (scast (stm_acc ! i)) 0 * scast (HIDDEN_WEIGHTS w ! i))
                        + c_max (scast (xstm_acc ! i)) 0 * scast (HIDDEN_WEIGHTS w ! (i + N_HIDDEN g)))
                      [0..<N_HIDDEN g] result0
      in c_div (c_div result1 QUANTIZATION_PRECISION_IN) QUANTIZATION_PRECISION_OUT)"

text \<open>
  The vector kernels. A vector register is the list of its lanes, lane 0 first: sixteen
  (AVX2) or eight (SSE) 16-bit lanes when loaded from an Accumulator or from
  \<open>HIDDEN_WEIGHTS\<close>, eight or four 32-bit lanes after \<open>madd\<close>. The intrinsics, as the
  instruction set defines them:
  \<^item> \<open>max_epi16\<close>: lane-wise signed maximum;
  \<^item> \<open>madd_epi16\<close>: the signed 32-bit products of corresponding 16-bit lanes, adjacent
    pairs of products added into one 32-bit lane;
  \<^item> \<open>add_epi32\<close>: lane-wise addition of 32-bit lanes, wrapping;
  \<^item> \<open>mm256_castsi256_si128\<close>, \<open>mm256_extractf128_si256 _ 1\<close>: the lower and the upper
    four 32-bit lanes;
  \<^item> \<open>mm_srli_si128 r k\<close>: the register shifted right by \<open>k\<close> bytes, zeros shifted in;
    for \<open>k\<close> = 8 and 4 that is by two lanes and by one lane of 32 bits;
  \<^item> \<open>mm_cvtsi128_si32\<close>: lane 0.
\<close>

definition load_epi16 :: "int16_t list \<Rightarrow> nat \<Rightarrow> nat \<Rightarrow> int16_t list" where
  "load_epi16 a off width = take width (drop off a)"

definition max_epi16 :: "int16_t list \<Rightarrow> int16_t list \<Rightarrow> int16_t list" where
  "max_epi16 a b = map2 (\<lambda>x y. if sint x > sint y then x else y) a b"

definition madd_epi16 :: "int16_t list \<Rightarrow> int16_t list \<Rightarrow> int32_t list" where
  "madd_epi16 a b =
     map (\<lambda>k. scast (a ! (2 * k)) * scast (b ! (2 * k))
             + scast (a ! (2 * k + 1)) * scast (b ! (2 * k + 1)))
       [0..<length a div 2]"

definition add_epi32 :: "int32_t list \<Rightarrow> int32_t list \<Rightarrow> int32_t list" where
  "add_epi32 a b = map2 (+) a b"

definition mm256_castsi256_si128 :: "int32_t list \<Rightarrow> int32_t list" where
  "mm256_castsi256_si128 r = take 4 r"

definition mm256_extractf128_si256_1 :: "int32_t list \<Rightarrow> int32_t list" where
  "mm256_extractf128_si256_1 r = take 4 (drop 4 r)"

definition mm_srli_si128 :: "int32_t list \<Rightarrow> nat \<Rightarrow> int32_t list" where
  "mm_srli_si128 r k = drop (k div 4) r @ replicate (min (k div 4) (length r)) 0"

definition mm_cvtsi128_si32 :: "int32_t list \<Rightarrow> int32_t" where
  "mm_cvtsi128_si32 r = r ! 0"

text \<open>
  The loop shared by both vector kernels: \<open>width\<close> is \<open>WIDTH\<close>, the number of 16-bit
  lanes of a register, \<open>chunks\<close> the number of iterations. It returns \<open>(s0, s1)\<close>.
\<close>

definition madd_loop ::
  "Geometry \<Rightarrow> Weights \<Rightarrow> nat \<Rightarrow> nat \<Rightarrow> Accumulator \<Rightarrow> Accumulator \<Rightarrow> int32_t list \<times> int32_t list" where
  "madd_loop g w width chunks stm_acc xstm_acc =
     (let zero = replicate width 0 in
      fold (\<lambda>j (s0, s1).
              let ac0 = max_epi16 (load_epi16 stm_acc (j * width) width) zero;
                  ac1 = max_epi16 (load_epi16 xstm_acc (j * width) width) zero
              in (add_epi32 s0 (madd_epi16 ac0 (load_epi16 (HIDDEN_WEIGHTS w) (j * width) width)),
                  add_epi32 s1 (madd_epi16 ac1
                    (load_epi16 (HIDDEN_WEIGHTS w) (j * width + N_HIDDEN g) width))))
        [0..<chunks] (replicate (width div 2) 0, replicate (width div 2) 0))"

text \<open>\<open>__AVX2__\<close>: \<open>WIDTH = sizeof(__m256i) / sizeof(int16_t) = 16\<close>, \<open>CHUNKS = N_HIDDEN / WIDTH\<close>.\<close>

definition OutputLayer_avx2 :: "Geometry \<Rightarrow> Weights \<Rightarrow> Accumulator \<Rightarrow> Accumulator \<Rightarrow> int32_t" where
  "OutputLayer_avx2 g w stm_acc xstm_acc =
     (let result0 = OUTPUT_BIAS w * QUANTIZATION_PRECISION_IN;
          (s0, s1) = madd_loop g w 16 (N_HIDDEN g div 16) stm_acc xstm_acc;
          r8 = add_epi32 s0 s1;
          r4 = add_epi32 (mm256_castsi256_si128 r8) (mm256_extractf128_si256_1 r8);
          r2 = add_epi32 r4 (mm_srli_si128 r4 8);
          r1 = add_epi32 r2 (mm_srli_si128 r2 4);
          result1 = result0 + mm_cvtsi128_si32 r1
      in c_div (c_div result1 QUANTIZATION_PRECISION_IN) QUANTIZATION_PRECISION_OUT)"

text \<open>\<open>__SSE__\<close>: \<open>WIDTH = sizeof(__m128i) / sizeof(int16_t) = 8\<close>, the loop runs \<open>N_HIDDEN / 8\<close> times.\<close>

definition OutputLayer_sse :: "Geometry \<Rightarrow> Weights \<Rightarrow> Accumulator \<Rightarrow> Accumulator \<Rightarrow> int32_t" where
  "OutputLayer_sse g w stm_acc xstm_acc =
     (let result0 = OUTPUT_BIAS w * QUANTIZATION_PRECISION_IN;
          (s0, s1) = madd_loop g w 8 (N_HIDDEN g div 8) stm_acc xstm_acc;
          r4 = add_epi32 s0 s1;
          r2 = add_epi32 r4 (mm_srli_si128 r4 8);
          r1 = add_epi32 r2 (mm_srli_si128 r2 4);
          result1 = result0 + mm_cvtsi128_si32 r1
      in c_div (c_div result1 QUANTIZATION_PRECISION_IN) QUANTIZATION_PRECISION_OUT)"

text \<open>Which kernel the build selects.\<close>

datatype Build = AVX2 | SSE | Scalar

definition OutputLayer :: "Build \<Rightarrow> Geometry \<Rightarrow> Weights \<Rightarrow> Accumulator \<Rightarrow> Accumulator \<Rightarrow> int32_t" where
  "OutputLayer build g w stm_acc xstm_acc =
     (case build of
        AVX2 \<Rightarrow> OutputLayer_avx2 g w stm_acc xstm_acc
      | SSE \<Rightarrow> OutputLayer_sse g w stm_acc xstm_acc
      | Scalar \<Rightarrow> OutputLayer_scalar g w stm_acc xstm_acc)"

text \<open>
  The inputs of \<open>OutputLayer\<close> as the C types give them: both Accumulators have
  \<open>N_HIDDEN\<close> lanes and \<open>HIDDEN_WEIGHTS\<close> has \<open>2 * N_HIDDEN\<close>.
\<close>

definition output_ok :: "Geometry \<Rightarrow> Weights \<Rightarrow> Accumulator \<Rightarrow> Accumulator \<Rightarrow> bool" where
  "output_ok g w stm_acc xstm_acc \<longleftrightarrow>
     length stm_acc = N_HIDDEN g \<and> length xstm_acc = N_HIDDEN g \<and>
     length (HIDDEN_WEIGHTS w) = 2 * N_HIDDEN g"

text \<open>
  The value the output layer stands for, over the integers: the bias scaled by the input
  precision plus both dot products of the rectified lanes.
\<close>

definition output_total :: "Geometry \<Rightarrow> Weights \<Rightarrow> Accumulator \<Rightarrow> Accumulator \<Rightarrow> int" where
  "output_total g w stm_acc xstm_acc =
     sint (OUTPUT_BIAS w) * 32
     + (\<Sum>i<N_HIDDEN g. max (sint (stm_acc ! i)) 0 * sint (HIDDEN_WEIGHTS w ! i))
     + (\<Sum>i<N_HIDDEN g. max (sint (xstm_acc ! i)) 0 * sint (HIDDEN_WEIGHTS w ! (i + N_HIDDEN g)))"

subsection \<open>Predict\<close>

text \<open>
  \<open>Predict\<close> has two local arrays, \<open>Accumulator stm, xstm\<close>, which hold whatever the
  stack held when it is entered, and passes each to \<open>RefreshAccumulator\<close> with the
  board. To state what a call reads and writes, the memory it can reach is explicit: the
  board behind the pointer, the global weight arrays and the two locals. Every store of
  a lane is a step on that state.
\<close>

datatype Local = StmLocal | XstmLocal

record 'a PredictState =
  st_board :: "'a Board_scheme"
  st_weights :: Weights
  st_stm :: Accumulator
  st_xstm :: Accumulator

definition local_acc :: "'a PredictState \<Rightarrow> Local \<Rightarrow> Accumulator" where
  "local_acc s l = (case l of StmLocal \<Rightarrow> st_stm s | XstmLocal \<Rightarrow> st_xstm s)"

definition store_local :: "'a PredictState \<Rightarrow> Local \<Rightarrow> Accumulator \<Rightarrow> 'a PredictState" where
  "store_local s l a = (case l of StmLocal \<Rightarrow> s\<lparr>st_stm := a\<rparr> | XstmLocal \<Rightarrow> s\<lparr>st_xstm := a\<rparr>)"

text \<open>\<open>accumulator[i] = v\<close>, where \<open>accumulator\<close> points to the local \<open>l\<close>.\<close>

definition store_local_lane :: "'a PredictState \<Rightarrow> Local \<Rightarrow> nat \<Rightarrow> int16_t \<Rightarrow> 'a PredictState" where
  "store_local_lane s l i v = store_local s l ((local_acc s l)[i := v])"

text \<open>
  \<open>RefreshAccumulator\<close> as \<open>Predict\<close> calls it, on the local \<open>l\<close>: the body of the
  \<open>while\<close> loop for one square, the loop, and the function. Board and weights are read
  from the state at every step; \<open>memcpy\<close> overwrites the first \<open>N_HIDDEN\<close> lanes of
  the local, which are all it has.
\<close>

definition refresh_square_local ::
  "Geometry \<Rightarrow> nat \<Rightarrow> nat \<Rightarrow> Local \<Rightarrow> nat \<Rightarrow> 'a PredictState \<Rightarrow> 'a PredictState" where
  "refresh_square_local g kingSq perspective l sq s =
     (let pc = squares (st_board s) ! sq;
          feature = FeatureIdx g pc sq kingSq perspective
      in fold (\<lambda>i s. store_local_lane s l i
                 (local_acc s l ! i + FEATURE_WEIGHTS (st_weights s) ! (feature * N_HIDDEN g + i)))
           [0..<N_HIDDEN g] s)"

function refresh_loop_local ::
  "Geometry \<Rightarrow> nat \<Rightarrow> nat \<Rightarrow> Local \<Rightarrow> BitBoard \<Rightarrow> 'a PredictState \<Rightarrow> 'a PredictState" where
  "refresh_loop_local g kingSq perspective l occ s =
     (if occ = 0 then s
      else refresh_loop_local g kingSq perspective l (snd (popAndGetLsb occ))
             (refresh_square_local g kingSq perspective l (fst (popAndGetLsb occ)) s))"
  by pat_completeness auto
termination
proof (relation "measure (\<lambda>(g, kingSq, perspective, l, occ, s). card {n. bit occ n})")
  show "wf (measure (\<lambda>(g :: Geometry, kingSq :: nat, perspective :: nat, l :: Local,
      occ :: BitBoard, s :: 'a PredictState). card {n. bit occ n}))"
    by simp
next
  fix g :: Geometry and kingSq perspective :: nat and l :: Local
    and occ :: BitBoard and s :: "'a PredictState"
  assume nz: "occ \<noteq> 0"
  have "\<exists>n. bit occ n"
  proof (rule ccontr)
    assume "\<not> (\<exists>n. bit occ n)"
    then have "occ = 0" by (intro bit_word_eqI) simp
    with nz show False by simp
  qed
  then obtain n where n: "bit occ n" ..
  then have n64: "n < 64" using bit_imp_le_length [of occ n] by simp
  have "lsb occ < 64"
  proof (rule ccontr)
    assume "\<not> lsb occ < 64"
    then have "length (takeWhile (\<lambda>n. \<not> bit occ n) [0..<64]) = length [0..<64::nat]"
      using length_takeWhile_le [of "\<lambda>n. \<not> bit occ n" "[0..<64]"] by (simp add: lsb_def)
    then have "takeWhile (\<lambda>n. \<not> bit occ n) [0..<64] = [0..<64]"
      using takeWhile_eq_take [of "\<lambda>n. \<not> bit occ n" "[0..<64]"] by simp
    then have "\<forall>m \<in> set [0..<64]. \<not> bit occ m"
      by (simp only: takeWhile_eq_all_conv)
    with n n64 show False by simp
  qed
  then have low: "bit occ (lsb occ)"
    using nth_length_takeWhile [of "\<lambda>n. \<not> bit occ n" "[0..<64]"] by (simp add: lsb_def)
  have "{n. bit (unset_bit (lsb occ) occ) n} = {n. bit occ n} - {lsb occ}"
    by (auto simp: bit_unset_bit_iff)
  moreover have "card ({n. bit occ n} - {lsb occ}) < card {n. bit occ n}"
    using low by (intro card_Diff1_less) simp_all
  ultimately have "card {n. bit (unset_bit (lsb occ) occ) n} < card {n. bit occ n}"
    by (simp only:)
  then show "((g, kingSq, perspective, l, snd (popAndGetLsb occ),
        refresh_square_local g kingSq perspective l (fst (popAndGetLsb occ)) s),
       (g, kingSq, perspective, l, occ, s))
      \<in> measure (\<lambda>(g, kingSq, perspective, l, occ, s). card {n. bit occ n})"
    by (simp add: popAndGetLsb_def)
qed

declare refresh_loop_local.simps [simp del]

definition RefreshAccumulator_local ::
  "Geometry \<Rightarrow> Local \<Rightarrow> nat \<Rightarrow> 'a PredictState \<Rightarrow> 'a PredictState" where
  "RefreshAccumulator_local g l perspective s =
     (let kingSq = lsb (PieceBB_KING g (st_board s) perspective);
          s1 = store_local s l
                 (take (N_HIDDEN g) (HIDDEN_BIASES (st_weights s)) @ drop (N_HIDDEN g) (local_acc s l));
          occ = OccBB (st_board s1) BOTH
      in refresh_loop_local g kingSq perspective l occ s1)"

text \<open>
  \<open>Predict\<close> returns the score and leaves the state the call ends in. \<open>board->xstm\<close> is
  read after the first refresh, as the C code does.
\<close>

definition Predict :: "Build \<Rightarrow> Geometry \<Rightarrow> 'a PredictState \<Rightarrow> int32_t \<times> 'a PredictState" where
  "Predict build g s =
     (let s1 = RefreshAccumulator_local g StmLocal (stm (st_board s)) s;
          s2 = RefreshAccumulator_local g XstmLocal (xstm (st_board s1)) s1
      in (OutputLayer build g (st_weights s2) (st_stm s2) (st_xstm s2), s2))"

text \<open>The local arrays have \<open>N_HIDDEN\<close> lanes, whatever they hold.\<close>

definition locals_ok :: "Geometry \<Rightarrow> 'a PredictState \<Rightarrow> bool" where
  "locals_ok g s \<longleftrightarrow> length (st_stm s) = N_HIDDEN g \<and> length (st_xstm s) = N_HIDDEN g"

subsection \<open>LoadDefaultNN\<close>

text \<open>
  A finite \<open>float\<close> is the real number it stands for. \<open>v * precision\<close> scales it
  by 32 or 512, a power of two, which binary floating point does exactly unless the
  product overflows to an infinity; \<open>round\<close> rounds to the nearest integer, halves away
  from zero (\<open>c_round\<close>).

  The conversion of the rounded \<open>double\<close> to \<open>int16_t\<close> goes through \<open>int\<close>: a value
  within the range of \<open>int\<close> keeps its low 16 bits, which is the value itself when it fits
  in 16 bits. C leaves the conversion of a value beyond the range of \<open>int\<close> undefined; the
  compiled code stores 0 then, and \<open>LoadWeight\<close> has that. A product that overflowed
  to an infinity is beyond the range of \<open>int\<close> as well.
\<close>

definition c_round :: "real \<Rightarrow> int" where
  "c_round x = (if 0 \<le> x then \<lfloor>x + 1 / 2\<rfloor> else - \<lfloor>- x + 1 / 2\<rfloor>)"

definition LoadWeight :: "real \<Rightarrow> int32_t \<Rightarrow> int16_t" where
  "LoadWeight v precision =
     (let r = c_round (v * real_of_int (sint precision))
      in if - (2 ^ 31) \<le> r \<and> r < 2 ^ 31 then word_of_int r else 0)"

text \<open>
  \<open>round(v * precision)\<close> converted to \<open>int32_t\<close>, as in the assignment to
  \<open>OUTPUT_BIAS\<close>: the value itself when it is within the range of \<open>int\<close>; beyond it
  the compiled code stores \<open>INT_MIN\<close>.
\<close>

definition round_int32 :: "real \<Rightarrow> int32_t \<Rightarrow> int32_t" where
  "round_int32 v precision =
     (let r = c_round (v * real_of_int (sint precision))
      in if - (2 ^ 31) \<le> r \<and> r < 2 ^ 31 then word_of_int r else word_of_int (- (2 ^ 31)))"

text \<open>
  \<open>((float* )EmbedData)[k]\<close>, and \<open>*((uint64_t* )(EmbedData + off))\<close> on a
  little-endian machine.
\<close>

definition read_float :: "Geometry \<Rightarrow> 8 word list \<Rightarrow> nat \<Rightarrow> real" where
  "read_float g EmbedData k = FloatOfBytes g (take 4 (drop (4 * k) EmbedData))"

definition read_uint64 :: "8 word list \<Rightarrow> nat \<Rightarrow> uint64_t" where
  "read_uint64 EmbedData off = foldr (\<lambda>b hash. ucast b + 256 * hash) (take 8 (drop off EmbedData)) 0"

text \<open>
  \<open>LoadWeight(*data, precision)\<close> and \<open>round(*data * precision)\<close> on the
  \<open>float\<close> object at \<open>data\<close>. An infinity or a NaN stays one through the product and
  through \<open>round\<close>, and converts as a value beyond the range of \<open>int\<close> does: to 0 as an
  \<open>int16_t\<close>, to \<open>INT_MIN\<close> as an \<open>int32_t\<close>.
\<close>

definition LoadWeight_at :: "Geometry \<Rightarrow> 8 word list \<Rightarrow> nat \<Rightarrow> int32_t \<Rightarrow> int16_t" where
  "LoadWeight_at g EmbedData data precision =
     (if FloatFinite g (take 4 (drop (4 * data) EmbedData))
      then LoadWeight (read_float g EmbedData data) precision
      else 0)"

definition round_int32_at :: "Geometry \<Rightarrow> 8 word list \<Rightarrow> nat \<Rightarrow> int32_t \<Rightarrow> int32_t" where
  "round_int32_at g EmbedData data precision =
     (if FloatFinite g (take 4 (drop (4 * data) EmbedData))
      then round_int32 (read_float g EmbedData data) precision
      else word_of_int (- (2 ^ 31)))"

definition magic_mismatch :: "8 word list \<Rightarrow> bool" where
  "magic_mismatch EmbedData \<longleftrightarrow>
     EmbedData ! 0 \<noteq> of_char CHR ''B'' \<or> EmbedData ! 1 \<noteq> of_char CHR ''R'' \<or>
     EmbedData ! 2 \<noteq> of_char CHR ''K'' \<or> EmbedData ! 3 \<noteq> of_char CHR ''R''"

text \<open>
  \<open>LoadDefaultNN\<close> takes the embedded resource and the global arrays, and returns the
  lines it printed and the arrays as it leaves them. \<open>data\<close> is the \<open>float\<close>
  pointer, counted in floats from the start of the resource.
\<close>

definition LoadDefaultNN :: "Geometry \<Rightarrow> 8 word list \<Rightarrow> Weights \<Rightarrow> string list \<times> Weights" where
  "LoadDefaultNN g EmbedData w =
     (let out = (if magic_mismatch EmbedData
                 then [''info string Berserk was not built using a standard net, use with caution!'']
                 else []);
          w1 = w\<lparr>DEFAULT_NN_HASH := read_uint64 EmbedData 4\<rparr>;
          data0 = 3;
          (w2, data1) = fold (\<lambda>j (w, data).
              (w\<lparr>FEATURE_WEIGHTS := (FEATURE_WEIGHTS w)
                  [j := LoadWeight_at g EmbedData data QUANTIZATION_PRECISION_IN]\<rparr>,
               data + 1)) [0..<N_FEATURES g * N_HIDDEN g] (w1, data0);
          (w3, data2) = fold (\<lambda>j (w, data).
              (w\<lparr>HIDDEN_BIASES := (HIDDEN_BIASES w)
                  [j := LoadWeight_at g EmbedData data QUANTIZATION_PRECISION_IN]\<rparr>,
               data + 1)) [0..<N_HIDDEN g] (w2, data1);
          (w4, data3) = fold (\<lambda>j (w, data).
              (w\<lparr>HIDDEN_WEIGHTS := (HIDDEN_WEIGHTS w)
                  [j := LoadWeight_at g EmbedData data QUANTIZATION_PRECISION_OUT]\<rparr>,
               data + 1)) [0..<N_HIDDEN g * 2] (w3, data2);
          w5 = w4\<lparr>OUTPUT_BIAS := round_int32_at g EmbedData data3 QUANTIZATION_PRECISION_OUT\<rparr>
      in (out, w5))"

text \<open>
  The global arrays have their declared sizes, and the resource holds the magic, the hash
  and every float the loader reads.
\<close>

definition weights_ok :: "Geometry \<Rightarrow> Weights \<Rightarrow> bool" where
  "weights_ok g w \<longleftrightarrow>
     length (FEATURE_WEIGHTS w) = N_FEATURES g * N_HIDDEN g \<and>
     length (HIDDEN_BIASES w) = N_HIDDEN g \<and>
     length (HIDDEN_WEIGHTS w) = 2 * N_HIDDEN g"

definition resource_ok :: "Geometry \<Rightarrow> 8 word list \<Rightarrow> bool" where
  "resource_ok g EmbedData \<longleftrightarrow>
     12 + 4 * (N_FEATURES g * N_HIDDEN g + N_HIDDEN g + 2 * N_HIDDEN g + 1) \<le> length EmbedData"

text \<open>The float that starts at byte \<open>off\<close> of the resource.\<close>

definition float_at :: "Geometry \<Rightarrow> 8 word list \<Rightarrow> nat \<Rightarrow> real" where
  "float_at g EmbedData off = FloatOfBytes g (take 4 (drop off EmbedData))"

text \<open>
  The float at byte \<open>off\<close> is finite and its product with \<open>p\<close>, rounded, fits the
  integer type it is stored in; and every float of the resource does, the weights in an
  \<open>int16_t\<close> and the output bias in an \<open>int32_t\<close>.
\<close>

definition fits_int16 :: "Geometry \<Rightarrow> 8 word list \<Rightarrow> nat \<Rightarrow> real \<Rightarrow> bool" where
  "fits_int16 g EmbedData off p \<longleftrightarrow>
     FloatFinite g (take 4 (drop off EmbedData)) \<and>
     - 32768 \<le> c_round (float_at g EmbedData off * p) \<and>
     c_round (float_at g EmbedData off * p) \<le> 32767"

definition fits_int32 :: "Geometry \<Rightarrow> 8 word list \<Rightarrow> nat \<Rightarrow> real \<Rightarrow> bool" where
  "fits_int32 g EmbedData off p \<longleftrightarrow>
     FloatFinite g (take 4 (drop off EmbedData)) \<and>
     - 2147483648 \<le> c_round (float_at g EmbedData off * p) \<and>
     c_round (float_at g EmbedData off * p) \<le> 2147483647"

definition resource_fits :: "Geometry \<Rightarrow> 8 word list \<Rightarrow> bool" where
  "resource_fits g EmbedData \<longleftrightarrow>
     (\<forall>j < N_FEATURES g * N_HIDDEN g. fits_int16 g EmbedData (12 + 4 * j) 32) \<and>
     (\<forall>j < N_HIDDEN g.
        fits_int16 g EmbedData (12 + 4 * (N_FEATURES g * N_HIDDEN g + j)) 32) \<and>
     (\<forall>j < 2 * N_HIDDEN g.
        fits_int16 g EmbedData (12 + 4 * (N_FEATURES g * N_HIDDEN g + N_HIDDEN g + j)) 512) \<and>
     fits_int32 g EmbedData
       (12 + 4 * (N_FEATURES g * N_HIDDEN g + N_HIDDEN g + 2 * N_HIDDEN g)) 512"

subsection \<open>Notions used to state the properties\<close>

text \<open>
  The occupied squares of a bitboard in the order the loop of \<open>RefreshAccumulator\<close>
  visits them, the feature of an occupied square and the features active on a board,
  from a perspective.
\<close>

definition occupied_squares :: "BitBoard \<Rightarrow> nat list" where
  "occupied_squares occ = filter (bit occ) [0..<64]"

definition feature_of :: "Geometry \<Rightarrow> 'a Board_scheme \<Rightarrow> nat \<Rightarrow> nat \<Rightarrow> nat" where
  "feature_of g board perspective sq =
     FeatureIdx g (squares board ! sq) sq (lsb (PieceBB_KING g board perspective)) perspective"

definition active_features :: "Geometry \<Rightarrow> 'a Board_scheme \<Rightarrow> nat \<Rightarrow> nat list" where
  "active_features g board perspective =
     map (feature_of g board perspective) (occupied_squares (OccBB board BOTH))"

text \<open>Lane-wise subtraction and addition of the weight row of feature \<open>f\<close>.\<close>

definition sub_row :: "Geometry \<Rightarrow> Weights \<Rightarrow> Accumulator \<Rightarrow> nat \<Rightarrow> Accumulator" where
  "sub_row g w a f = map (\<lambda>j. a ! j - FEATURE_WEIGHTS w ! (f * N_HIDDEN g + j)) [0..<N_HIDDEN g]"

definition add_row :: "Geometry \<Rightarrow> Weights \<Rightarrow> Accumulator \<Rightarrow> nat \<Rightarrow> Accumulator" where
  "add_row g w a f = map (\<lambda>j. a ! j + FEATURE_WEIGHTS w ! (f * N_HIDDEN g + j)) [0..<N_HIDDEN g]"

text \<open>
  The central contract of the Accumulator: lane \<open>i\<close> is the bias of the lane plus the
  weights of the lane over the given features, in 16-bit arithmetic.
\<close>

definition accumulator_of :: "Geometry \<Rightarrow> Weights \<Rightarrow> nat list \<Rightarrow> Accumulator" where
  "accumulator_of g w fs =
     map (\<lambda>i. HIDDEN_BIASES w ! i + (\<Sum>f\<leftarrow>fs. FEATURE_WEIGHTS w ! (f * N_HIDDEN g + i)))
       [0..<N_HIDDEN g]"

subsection \<open>A small network and a few boards\<close>

text \<open>
  Concrete inputs on which the theorems below are instantiated. \<open>ieee_single\<close> reads
  four little-endian bytes as an IEEE 754 binary32 number; \<open>ieee_finite\<close> holds unless
  the exponent bits are all ones, which is an infinity or a NaN (\<open>ieee_single\<close> is 0
  there, and is not used there).
\<close>

definition ieee_finite :: "8 word list \<Rightarrow> bool" where
  "ieee_finite bytes =
     (let n = unat (bytes ! 0) + 256 * unat (bytes ! 1) + 65536 * unat (bytes ! 2)
              + 16777216 * unat (bytes ! 3)
      in (n div 2 ^ 23) mod 256 \<noteq> 255)"

definition ieee_single :: "8 word list \<Rightarrow> real" where
  "ieee_single bytes =
     (let n = unat (bytes ! 0) + 256 * unat (bytes ! 1) + 65536 * unat (bytes ! 2)
              + 16777216 * unat (bytes ! 3);
          e = (n div 2 ^ 23) mod 256;
          m = n mod 2 ^ 23;
          x = (if e = 0 then real m / 2 ^ 149
               else if e = 255 then 0
               else if 150 \<le> e then real (2 ^ 23 + m) * 2 ^ (e - 150)
               else real (2 ^ 23 + m) / 2 ^ (150 - e))
      in if n div 2 ^ 31 = 1 then - x else x)"

definition ex_geometry :: Geometry where
  "ex_geometry = \<lparr>N_FEATURES = 4, N_HIDDEN = 2,
     FeatureIdx = (\<lambda>pc sq kingSq perspective. sq mod 4),
     KingPiece = (\<lambda>c. 10 + c), FloatFinite = ieee_finite,
     FloatOfBytes = ieee_single\<rparr>"

definition ex_weights :: Weights where
  "ex_weights = \<lparr>FEATURE_WEIGHTS = [1, 2, 3, 4, 5, 6, 7, 8], HIDDEN_BIASES = [10, 20],
     HIDDEN_WEIGHTS = [1, 2, 3, 4], OUTPUT_BIAS = 5, DEFAULT_NN_HASH = 0\<rparr>"

definition ex_board :: "BitBoard \<Rightarrow> int list \<Rightarrow> Accumulator list list \<Rightarrow> Board" where
  "ex_board occ sqs accs = \<lparr>pieces = replicate 10 0 @ [1, 2], occupancies = [occ - 2, 2, occ],
     squares = sqs @ replicate (64 - length sqs) 12, stm = 0, xstm = 1, ply = 1,
     accumulators = accs\<rparr>"


definition ex_update :: NNUpdate where
  "ex_update = \<lparr>nr = 1, na = 1, removals = [2], additions = [3]\<rparr>"

definition ex_addition_only :: NNUpdate where
  "ex_addition_only = \<lparr>nr = 0, na = 1, removals = [], additions = [2]\<rparr>"

text \<open>
  Kings on squares 0 and 1; then a third piece on square 2; then that piece moved to
  square 3. The boards that carry a history are at ply 1, with the refreshed
  Accumulators of the position before at ply 0.
\<close>

definition ex_kings :: Board where
  "ex_kings = ex_board 3 [10, 11] []"

definition ex_before :: Board where
  "ex_before = ex_board 7 [10, 11, 6] [[[14, 26], [0, 0]], [[14, 26], [0, 0]]]"

definition ex_after :: Board where
  "ex_after = ex_board 11 [10, 11, 12, 6] [[[19, 32], [0, 0]], [[19, 32], [0, 0]]]"

text \<open>
  An output layer for the small network under which the position after the move scores
  15, and the memory of a call of \<open>Predict\<close> on that position, with arbitrary contents
  in the two locals.
\<close>

definition ex_weights_out :: Weights where
  "ex_weights_out = \<lparr>FEATURE_WEIGHTS = [1, 2, 3, 4, 5, 6, 7, 8], HIDDEN_BIASES = [10, 20],
     HIDDEN_WEIGHTS = [1000, 2000, - 500, 400], OUTPUT_BIAS = 5000, DEFAULT_NN_HASH = 0\<rparr>"

definition ex_state :: "unit PredictState" where
  "ex_state = \<lparr>st_board = ex_after, st_weights = ex_weights_out,
     st_stm = [111, - 222], st_xstm = [333, 444]\<rparr>"

text \<open>A network with sixteen hidden lanes, the narrowest the AVX2 kernel handles.\<close>

definition ex_geometry16 :: Geometry where
  "ex_geometry16 = \<lparr>N_FEATURES = 1, N_HIDDEN = 16,
     FeatureIdx = (\<lambda>pc sq kingSq perspective. 0),
     KingPiece = (\<lambda>c. 10 + c), FloatFinite = ieee_finite,
     FloatOfBytes = ieee_single\<rparr>"

definition ex_weights16 :: Weights where
  "ex_weights16 = \<lparr>FEATURE_WEIGHTS = replicate 16 0, HIDDEN_BIASES = replicate 16 0,
     HIDDEN_WEIGHTS = [100, -200, 300, -400, 500, -600, 700, -800,
                       900, -1000, 1100, -1200, 1300, -1400, 1500, -1600,
                       -50, 60, -70, 80, -90, 100, -110, 120,
                       -130, 140, -150, 160, -170, 180, -190, 200],
     OUTPUT_BIAS = -1000, DEFAULT_NN_HASH = 0\<rparr>"

definition ex_stm16 :: Accumulator where
  "ex_stm16 = [10, -20, 300, -400, 50, 60, -7, 8, 9, 1000, -11, 12, 13, -14, 15, 1600]"

definition ex_xstm16 :: Accumulator where
  "ex_xstm16 = [-1, 2000, -3, 4, 500, -6, 7, 8, -9, 10, 11, -12, 13, 14, -15, 16]"

definition ex_weights_max :: Weights where
  "ex_weights_max = \<lparr>FEATURE_WEIGHTS = replicate 16 0, HIDDEN_BIASES = replicate 16 0,
     HIDDEN_WEIGHTS = replicate 32 32767, OUTPUT_BIAS = 0, DEFAULT_NN_HASH = 0\<rparr>"

definition ex_acc_max :: Accumulator where
  "ex_acc_max = replicate 16 32767"

text \<open>
  A net of one feature and one hidden lane, and a resource for it: the magic, the hash
  bytes 1 to 8, and the floats 1.0, -2.0, 0.5, 0.25 and 1.5.
\<close>

definition ex_geometry1 :: Geometry where
  "ex_geometry1 = \<lparr>N_FEATURES = 1, N_HIDDEN = 1,
     FeatureIdx = (\<lambda>pc sq kingSq perspective. 0),
     KingPiece = (\<lambda>c. 10 + c), FloatFinite = ieee_finite,
     FloatOfBytes = ieee_single\<rparr>"

definition ex_globals1 :: Weights where
  "ex_globals1 = \<lparr>FEATURE_WEIGHTS = [0], HIDDEN_BIASES = [0], HIDDEN_WEIGHTS = [0, 0],
     OUTPUT_BIAS = 0, DEFAULT_NN_HASH = - 1\<rparr>"

definition ex_payload :: "8 word list" where
  "ex_payload = [1, 2, 3, 4, 5, 6, 7, 8,
     0, 0, 128, 63,  0, 0, 0, 192,  0, 0, 0, 63,  0, 0, 128, 62,  0, 0, 192, 63]"

definition ex_resource :: "8 word list" where
  "ex_resource = [66, 82, 75, 82] @ ex_payload"

definition ex_resource_custom :: "8 word list" where
  "ex_resource_custom = [78, 69, 84, 33] @ ex_payload"

section \<open>Properties\<close>

subsection \<open>Stores into the board\<close>

lemma acc_at_store_acc_same:
  "c < length (accumulators b) \<Longrightarrow> p < length (accumulators b ! c) \<Longrightarrow>
   acc_at (store_acc b c p a) c p = a"
  by (simp add: acc_at_def store_acc_def)

lemma list_update_out: "\<not> c < length xs \<Longrightarrow> xs[c := x] = xs"
  by (rule list_update_beyond) simp

lemma acc_at_store_acc_other:
  assumes "c' \<noteq> c \<or> p' \<noteq> p"
  shows "acc_at (store_acc b c p a) c' p' = acc_at b c' p'"
proof (cases "c < length (accumulators b)")
  case True
  then show ?thesis using assms
    by (cases "c' = c") (auto simp: acc_at_def store_acc_def)
next
  case False
  then show ?thesis
    by (simp add: acc_at_def store_acc_def list_update_out)
qed

lemma store_acc_twice:
  "store_acc (store_acc b c p a) c p a' = store_acc b c p a'"
proof (cases "c < length (accumulators b)")
  case True
  then show ?thesis by (simp add: store_acc_def)
next
  case False
  then show ?thesis by (simp add: store_acc_def list_update_out)
qed

lemma ply_store_acc: "ply (store_acc b c p a) = ply b"
  by (simp add: store_acc_def)

lemma length_accumulators_store_acc:
  "length (accumulators (store_acc b c p a)) = length (accumulators b)"
  by (simp add: store_acc_def)

lemma length_row_store_acc:
  "length (accumulators (store_acc b c p a) ! c') = length (accumulators b ! c')"
proof (cases "c < length (accumulators b)")
  case True
  then show ?thesis by (cases "c' = c") (simp_all add: store_acc_def)
next
  case False
  then show ?thesis by (simp add: store_acc_def list_update_out)
qed

lemma lane_loop_prefix:
  assumes "c < length (accumulators b)" "p < length (accumulators b ! c)"
    and "k \<le> length (acc_at b c p)"
  shows "fold (\<lambda>j b. store_lane b c p j (h j (acc_at b c q ! j))) [0..<k] b =
         store_acc b c p (map (\<lambda>j. h j (acc_at b c q ! j)) [0..<k] @ drop k (acc_at b c p))"
  using assms(3)
proof (induction k)
  case 0
  show ?case using assms(1,2)
    by (simp add: store_acc_def acc_at_def)
next
  case (Suc k)
  let ?old = "acc_at b c p"
  let ?L = "map (\<lambda>j. h j (acc_at b c q ! j)) [0..<k] @ drop k ?old"
  let ?b = "store_acc b c p ?L"
  have k: "k < length ?old" using Suc.prems by simp
  have Lk: "?L ! k = ?old ! k" using k by (simp add: nth_append)
  have rd: "acc_at ?b c q ! k = acc_at b c q ! k"
  proof (cases "q = p")
    case True
    then show ?thesis using assms(1,2) Lk by (simp add: acc_at_store_acc_same)
  next
    case False
    then show ?thesis by (simp add: acc_at_store_acc_other)
  qed
  have upd: "?L[k := v] = map (\<lambda>j. h j (acc_at b c q ! j)) [0..<k] @ v # drop (Suc k) ?old" for v
  proof -
    have "drop k ?old = ?old ! k # drop (Suc k) ?old"
      using k by (rule Cons_nth_drop_Suc [symmetric])
    then show ?thesis by (simp add: list_update_append)
  qed
  have "fold (\<lambda>j b. store_lane b c p j (h j (acc_at b c q ! j))) [0..<Suc k] b =
        store_lane ?b c p k (h k (acc_at ?b c q ! k))"
    using Suc by simp
  also have "\<dots> = store_acc b c p (?L[k := h k (acc_at b c q ! k)])"
    using assms(1,2) by (simp add: store_lane_def rd acc_at_store_acc_same store_acc_twice)
  also have "\<dots> = store_acc b c p (map (\<lambda>j. h j (acc_at b c q ! j)) [0..<Suc k] @ drop (Suc k) ?old)"
    by (simp add: upd)
  finally show ?case .
qed

lemma lane_loop:
  assumes "c < length (accumulators b)" "p < length (accumulators b ! c)"
    and "length (acc_at b c p) = n"
  shows "fold (\<lambda>j b. store_lane b c p j (h j (acc_at b c q ! j))) [0..<n] b =
         store_acc b c p (map (\<lambda>j. h j (acc_at b c q ! j)) [0..<n])"
  using lane_loop_prefix [OF assms(1,2), of n h q] assms(3) by simp

subsection \<open>ApplyUpdates in closed form\<close>

lemma length_sub_row [simp]: "length (sub_row g w a f) = N_HIDDEN g"
  by (simp add: sub_row_def)

lemma length_add_row [simp]: "length (add_row g w a f) = N_HIDDEN g"
  by (simp add: add_row_def)

lemma row_loops:
  assumes "c < length (accumulators b)" "p < length (accumulators b ! c)"
    and "length a = N_HIDDEN g" "\<And>a f. length (F a f) = N_HIDDEN g"
    and "\<And>a f. F a f = map (\<lambda>j. h f j (a ! j)) [0..<N_HIDDEN g]"
  shows "fold (\<lambda>i. fold (\<lambda>j b. store_lane b c p j (h (fs ! i) j (acc_at b c p ! j)))
            [0..<N_HIDDEN g]) is (store_acc b c p a) =
         store_acc b c p (fold (\<lambda>i a. F a (fs ! i)) is a)"
  using assms(3)
proof (induction "is" arbitrary: a)
  case Nil
  show ?case by simp
next
  case (Cons i "is")
  let ?b = "store_acc b c p a"
  have in1: "c < length (accumulators ?b)"
    using assms(1) by (simp add: length_accumulators_store_acc)
  have in2: "p < length (accumulators ?b ! c)"
    using assms(2) by (simp add: length_row_store_acc)
  have cur: "acc_at ?b c p = a"
    using assms(1,2) by (rule acc_at_store_acc_same)
  have "fold (\<lambda>j b. store_lane b c p j (h (fs ! i) j (acc_at b c p ! j))) [0..<N_HIDDEN g] ?b =
        store_acc ?b c p (map (\<lambda>j. h (fs ! i) j (acc_at ?b c p ! j)) [0..<N_HIDDEN g])"
    using in1 in2 by (rule lane_loop) (simp add: cur Cons.prems)
  also have "\<dots> = store_acc b c p (F a (fs ! i))"
    by (simp add: cur store_acc_twice assms(5))
  finally have step: "fold (\<lambda>j b. store_lane b c p j (h (fs ! i) j (acc_at b c p ! j)))
      [0..<N_HIDDEN g] ?b = store_acc b c p (F a (fs ! i))" .
  show ?case
    by (simp add: step Cons.IH [OF assms(4)])
qed

lemma ApplyUpdates_update:
  assumes ok: "board_ok g board c" and nz: "nr updates \<noteq> 0"
  shows "ApplyUpdates g w board c updates =
         store_acc board c (ply board)
           (fold (\<lambda>i a. add_row g w a (additions updates ! i)) [0..<na updates]
             (fold (\<lambda>i a. sub_row g w a (removals updates ! i)) [1..<nr updates]
               (sub_row g w (acc_at board c (ply board - 1)) (removals updates ! 0))))"
proof -
  let ?n = "N_HIDDEN g" and ?p = "ply board"
  have in1: "c < length (accumulators board)" and in2: "?p < length (accumulators board ! c)"
    and len: "length (acc_at board c ?p) = ?n"
    using ok by (simp_all add: board_ok_def)
  have b1: "fold (\<lambda>j b. store_lane b c ?p j
              (acc_at b c (?p - 1) ! j - FEATURE_WEIGHTS w ! (removals updates ! 0 * ?n + j)))
              [0..<?n] board =
            store_acc board c ?p (sub_row g w (acc_at board c (?p - 1)) (removals updates ! 0))"
    using lane_loop [OF in1 in2 len,
        of "\<lambda>j v. v - FEATURE_WEIGHTS w ! (removals updates ! 0 * ?n + j)" "?p - 1"]
    by (simp add: sub_row_def)
  have b2: "fold (\<lambda>i. fold (\<lambda>j b. store_lane b c ?p j
              (acc_at b c ?p ! j - FEATURE_WEIGHTS w ! (removals updates ! i * ?n + j)))
              [0..<?n]) is (store_acc board c ?p a) =
            store_acc board c ?p (fold (\<lambda>i a. sub_row g w a (removals updates ! i)) is a)"
    if "length a = ?n" for a "is"
    using row_loops [OF in1 in2 that, of "sub_row g w" "\<lambda>f j v. v - FEATURE_WEIGHTS w ! (f * ?n + j)"
        "removals updates" "is"]
    by (simp add: sub_row_def)
  have b3: "fold (\<lambda>i. fold (\<lambda>j b. store_lane b c ?p j
              (acc_at b c ?p ! j + FEATURE_WEIGHTS w ! (additions updates ! i * ?n + j)))
              [0..<?n]) is (store_acc board c ?p a) =
            store_acc board c ?p (fold (\<lambda>i a. add_row g w a (additions updates ! i)) is a)"
    if "length a = ?n" for a "is"
    using row_loops [OF in1 in2 that, of "add_row g w" "\<lambda>f j v. v + FEATURE_WEIGHTS w ! (f * ?n + j)"
        "additions updates" "is"]
    by (simp add: add_row_def)
  have len2: "length (fold (\<lambda>i a. sub_row g w a (removals updates ! i)) is a) = ?n"
    if "length a = ?n" for a "is"
    using that by (induction "is" arbitrary: a) simp_all
  let ?a1 = "sub_row g w (acc_at board c (?p - 1)) (removals updates ! 0)"
  let ?a2 = "fold (\<lambda>i a. sub_row g w a (removals updates ! i)) [1..<nr updates] ?a1"
  have s2: "fold (\<lambda>i. fold (\<lambda>j b. store_lane b c ?p j
              (acc_at b c ?p ! j - FEATURE_WEIGHTS w ! (removals updates ! i * ?n + j)))
              [0..<?n]) [1..<nr updates] (store_acc board c ?p ?a1) = store_acc board c ?p ?a2"
    by (rule b2) simp
  have s3: "fold (\<lambda>i. fold (\<lambda>j b. store_lane b c ?p j
              (acc_at b c ?p ! j + FEATURE_WEIGHTS w ! (additions updates ! i * ?n + j)))
              [0..<?n]) [0..<na updates] (store_acc board c ?p ?a2) =
            store_acc board c ?p
              (fold (\<lambda>i a. add_row g w a (additions updates ! i)) [0..<na updates] ?a2)"
    by (rule b3) (simp add: len2)
  show ?thesis
    unfolding ApplyUpdates_def Let_def
    by (simp only: nz b1 s2 s3 if_True not_False_eq_True)
qed

lemma ApplyUpdates_copy:
  assumes ok: "board_ok g board c" and z: "nr updates = 0"
  shows "ApplyUpdates g w board c updates =
         store_acc board c (ply board) (acc_at board c (ply board - 1))"
  using assms by (simp add: ApplyUpdates_def Let_def board_ok_def)

subsection \<open>The fast path and the frame of ApplyUpdates\<close>

text \<open>
  C4. When the removal list of the diff is empty (\<open>nr = 0\<close>), whatever its addition list
  holds, \<open>ApplyUpdates\<close> leaves at the current ply exactly the Accumulator of the
  previous ply, and the ply itself is unchanged.
\<close>

theorem ApplyUpdates_empty_removals:
  assumes "board_ok g board c" and "nr updates = 0"
  shows "acc_at (ApplyUpdates g w board c updates) c (ply board) = acc_at board c (ply board - 1)
         \<and> ply (ApplyUpdates g w board c updates) = ply board"
proof -
  have "c < length (accumulators board)" "ply board < length (accumulators board ! c)"
    using assms(1) by (simp_all add: board_ok_def)
  then show ?thesis
    by (simp add: ApplyUpdates_copy [OF assms] acc_at_store_acc_same ply_store_acc)
qed

theorem ApplyUpdates_empty_removals_witness:
  "board_ok ex_geometry ex_before 0 \<and> nr ex_addition_only = 0 \<and> na ex_addition_only = 1
   \<and> acc_at (ApplyUpdates ex_geometry ex_weights ex_before 0 ex_addition_only) 0 1 = [14, 26]
   \<and> acc_at ex_before 0 0 = [14, 26]"
proof -
  have ok: "board_ok ex_geometry ex_before 0"
    by (simp add: board_ok_def ex_geometry_def ex_before_def ex_board_def acc_at_def)
  have z: "nr ex_addition_only = 0" and a: "na ex_addition_only = 1"
    by (simp_all add: ex_addition_only_def)
  have p: "ply ex_before = 1" and prev: "acc_at ex_before 0 0 = [14, 26]"
    by (simp_all add: ex_before_def ex_board_def acc_at_def)
  from ApplyUpdates_empty_removals [OF ok z, of ex_weights]
  have "acc_at (ApplyUpdates ex_geometry ex_weights ex_before 0 ex_addition_only) 0 1 = [14, 26]"
    by (simp add: p prev)
  with ok z a prev show ?thesis by simp
qed

text \<open>
  C10. \<open>ApplyUpdates\<close> writes \<open>board->accumulators[c][board->ply]\<close> and nothing else:
  the board it returns is the board it was given with that one Accumulator replaced. So
  every Accumulator at another ply or of the other perspective is the same, in
  particular the one of the previous ply that it reads; and the pieces, the occupancies,
  the squares, the sides, the ply and every further field of the board are the same. The
  weight arrays are read and never written: the function does not return them.
\<close>

theorem ApplyUpdates_frame:
  assumes "board_ok g board c"
  shows "ApplyUpdates g w board c updates =
           board\<lparr>accumulators := (accumulators board)
             [c := (accumulators board ! c)
               [ply board := acc_at (ApplyUpdates g w board c updates) c (ply board)]]\<rparr>
         \<and> (\<forall>c' p'. c' \<noteq> c \<or> p' \<noteq> ply board \<longrightarrow>
              acc_at (ApplyUpdates g w board c updates) c' p' = acc_at board c' p')
         \<and> acc_at (ApplyUpdates g w board c updates) c (ply board - 1) = acc_at board c (ply board - 1)
         \<and> pieces (ApplyUpdates g w board c updates) = pieces board
         \<and> occupancies (ApplyUpdates g w board c updates) = occupancies board
         \<and> squares (ApplyUpdates g w board c updates) = squares board
         \<and> stm (ApplyUpdates g w board c updates) = stm board
         \<and> xstm (ApplyUpdates g w board c updates) = xstm board
         \<and> ply (ApplyUpdates g w board c updates) = ply board
         \<and> Board.more (ApplyUpdates g w board c updates) = Board.more board"
proof -
  let ?b = "ApplyUpdates g w board c updates"
  have in1: "c < length (accumulators board)" and in2: "ply board < length (accumulators board ! c)"
    and pos: "0 < ply board"
    using assms by (simp_all add: board_ok_def)
  obtain a where a: "?b = store_acc board c (ply board) a"
    using ApplyUpdates_update [OF assms, of updates w] ApplyUpdates_copy [OF assms, of updates w]
    by (cases "nr updates = 0") auto
  have cur: "acc_at ?b c (ply board) = a"
    by (simp add: a acc_at_store_acc_same [OF in1 in2])
  have other: "acc_at ?b c' p' = acc_at board c' p'" if "c' \<noteq> c \<or> p' \<noteq> ply board" for c' p'
    using that by (simp add: a acc_at_store_acc_other)
  have prev: "acc_at ?b c (ply board - 1) = acc_at board c (ply board - 1)"
    using pos by (intro other) simp
  have eq: "?b = board\<lparr>accumulators := (accumulators board)
             [c := (accumulators board ! c)[ply board := acc_at ?b c (ply board)]]\<rparr>"
    unfolding cur by (simp add: a store_acc_def)
  have fields: "pieces ?b = pieces board" "occupancies ?b = occupancies board"
    "squares ?b = squares board" "stm ?b = stm board" "xstm ?b = xstm board"
    "ply ?b = ply board" "Board.more ?b = Board.more board"
    by (simp_all add: a store_acc_def)
  from eq other prev fields show ?thesis by blast
qed

theorem ApplyUpdates_frame_witness:
  "board_ok ex_geometry ex_after 0
   \<and> ApplyUpdates ex_geometry ex_weights ex_after 0 ex_update =
       ex_after\<lparr>accumulators := [[[19, 32], [21, 34]], [[19, 32], [0, 0]]]\<rparr>
   \<and> acc_at (ApplyUpdates ex_geometry ex_weights ex_after 0 ex_update) 1 1 = acc_at ex_after 1 1
   \<and> acc_at (ApplyUpdates ex_geometry ex_weights ex_after 0 ex_update) 0 0 = acc_at ex_after 0 0"
proof -
  have ok: "board_ok ex_geometry ex_after 0"
    by (simp add: board_ok_def ex_geometry_def ex_after_def ex_board_def acc_at_def)
  have p: "ply ex_after = 1"
    by (simp add: ex_after_def ex_board_def)
  note frame = ApplyUpdates_frame [OF ok, of ex_weights ex_update]
  have new: "acc_at (ApplyUpdates ex_geometry ex_weights ex_after 0 ex_update) 0 1 = [21, 34]"
    by code_simp
  have "ApplyUpdates ex_geometry ex_weights ex_after 0 ex_update =
       ex_after\<lparr>accumulators := [[[19, 32], [21, 34]], [[19, 32], [0, 0]]]\<rparr>"
    using frame [THEN conjunct1] unfolding p new
    by (simp add: ex_after_def ex_board_def)
  moreover have "acc_at (ApplyUpdates ex_geometry ex_weights ex_after 0 ex_update) 1 1 = acc_at ex_after 1 1"
    using frame by simp
  moreover have "acc_at (ApplyUpdates ex_geometry ex_weights ex_after 0 ex_update) 0 0 = acc_at ex_after 0 0"
    using frame by (simp add: p)
  ultimately show ?thesis using ok by blast
qed

subsection \<open>RefreshAccumulator in closed form\<close>

lemma lane_update_prefix:
  "k \<le> length a \<Longrightarrow>
   fold (\<lambda>i acc. acc[i := h i (acc ! i)]) [0..<k] a = map (\<lambda>i. h i (a ! i)) [0..<k] @ drop k a"
proof (induction k)
  case 0
  show ?case by simp
next
  case (Suc k)
  then have k: "k < length a" by simp
  have d: "drop k a = a ! k # drop (Suc k) a"
    using k by (rule Cons_nth_drop_Suc [symmetric])
  show ?case
    using Suc k by (simp add: nth_append list_update_append d)
qed

lemma add_feature_add_row:
  "length a = N_HIDDEN g \<Longrightarrow> add_feature g w f a = add_row g w a f"
  using lane_update_prefix [of "N_HIDDEN g" a "\<lambda>i v. v + FEATURE_WEIGHTS w ! (f * N_HIDDEN g + i)"]
  by (simp add: add_feature_def add_row_def)

lemma lsb_set:
  assumes "occ \<noteq> 0"
  shows "lsb occ < 64" and "bit occ (lsb occ)" and "\<And>m. m < lsb occ \<Longrightarrow> \<not> bit occ m"
proof -
  let ?P = "\<lambda>n. \<not> bit occ n"
  have "\<exists>n. bit occ n"
  proof (rule ccontr)
    assume "\<not> (\<exists>n. bit occ n)"
    then have "occ = 0" by (intro bit_word_eqI) simp
    with assms show False by simp
  qed
  then obtain n where n: "bit occ n" ..
  then have n64: "n < 64" using bit_imp_le_length [of occ n] by simp
  show less: "lsb occ < 64"
  proof (rule ccontr)
    assume "\<not> lsb occ < 64"
    then have "length (takeWhile ?P [0..<64]) = length [0..<64::nat]"
      using length_takeWhile_le [of ?P "[0..<64]"] by (simp add: lsb_def)
    then have "takeWhile ?P [0..<64] = [0..<64]"
      using takeWhile_eq_take [of ?P "[0..<64]"] by simp
    then have "\<forall>m \<in> set [0..<64]. \<not> bit occ m"
      by (simp only: takeWhile_eq_all_conv)
    with n n64 show False by simp
  qed
  then show "bit occ (lsb occ)"
    using nth_length_takeWhile [of ?P "[0..<64]"] by (simp add: lsb_def)
  show "\<not> bit occ m" if "m < lsb occ" for m
  proof -
    from that have m: "m < length (takeWhile ?P [0..<64])" by (simp add: lsb_def)
    then have "takeWhile ?P [0..<64] ! m \<in> set (takeWhile ?P [0..<64])"
      by (rule nth_mem)
    then have "?P (takeWhile ?P [0..<64] ! m)"
      by (rule set_takeWhileD [THEN conjunct2])
    moreover have "takeWhile ?P [0..<64] ! m = m"
      using m less that by (simp add: takeWhile_nth lsb_def)
    ultimately show ?thesis by simp
  qed
qed

lemma occupied_squares_pop:
  assumes "occ \<noteq> 0"
  shows "occupied_squares occ = lsb occ # occupied_squares (unset_bit (lsb occ) occ)"
proof -
  let ?l = "lsb occ" and ?occ' = "unset_bit (lsb occ) occ"
  note l = lsb_set [OF assms]
  have split: "[0..<64] = [0..<?l] @ ?l # [Suc ?l..<64]"
  proof -
    have "[0..<?l + (64 - ?l)] = [0..<?l] @ [?l..<?l + (64 - ?l)]"
      by (rule upt_add_eq_append) simp
    moreover have "?l + (64 - ?l) = 64" using l(1) by simp
    ultimately have "[0..<64] = [0..<?l] @ [?l..<64]" by simp
    moreover have "[?l..<64] = ?l # [Suc ?l..<64]"
      using l(1) by (rule upt_conv_Cons)
    ultimately show ?thesis by simp
  qed
  have low: "filter (bit occ) [0..<?l] = []" "filter (bit ?occ') [0..<?l] = []"
    using l(3) by (auto simp: filter_empty_conv bit_unset_bit_iff)
  have high: "filter (bit ?occ') [Suc ?l..<64] = filter (bit occ) [Suc ?l..<64]"
    by (rule filter_cong) (auto simp: bit_unset_bit_iff)
  have "occupied_squares occ = ?l # filter (bit occ) [Suc ?l..<64]"
    unfolding occupied_squares_def by (subst split) (simp add: low l(2))
  moreover have "occupied_squares ?occ' = filter (bit occ) [Suc ?l..<64]"
    unfolding occupied_squares_def by (subst split) (simp add: low high bit_unset_bit_iff)
  ultimately show ?thesis by simp
qed

lemma occupied_squares_0: "occupied_squares 0 = []"
  by (simp add: occupied_squares_def)

lemma set_occupied_squares: "set (occupied_squares occ) = {sq. bit occ sq}"
  using bit_imp_le_length [of occ] by (auto simp: occupied_squares_def)

lemma distinct_occupied_squares: "distinct (occupied_squares occ)"
  by (simp add: occupied_squares_def)

lemma refresh_loop_fold:
  "refresh_loop g w board kingSq perspective occ accumulator =
   fold (refresh_square g w board kingSq perspective) (occupied_squares occ) accumulator"
proof (induction g w board kingSq perspective occ accumulator rule: refresh_loop.induct)
  case (1 g w board kingSq perspective occ accumulator)
  show ?case
  proof (cases "occ = 0")
    case True
    then show ?thesis
      by (subst refresh_loop.simps) (simp add: occupied_squares_0)
  next
    case False
    then show ?thesis
      using "1" by (subst refresh_loop.simps) (simp add: occupied_squares_pop popAndGetLsb_def)
  qed
qed

lemma fold_add_row:
  "length a = N_HIDDEN g \<Longrightarrow>
   fold (\<lambda>f a. add_row g w a f) fs a =
   map (\<lambda>i. a ! i + (\<Sum>f\<leftarrow>fs. FEATURE_WEIGHTS w ! (f * N_HIDDEN g + i))) [0..<N_HIDDEN g]"
proof (induction fs arbitrary: a)
  case Nil
  then show ?case using map_nth [of a] by simp
next
  case (Cons f fs)
  have "length (add_row g w a f) = N_HIDDEN g" by (simp add: add_row_def)
  from Cons.IH [OF this] show ?case
    by (simp add: add_row_def add.assoc)
qed

lemma fold_sub_row:
  "length a = N_HIDDEN g \<Longrightarrow>
   fold (\<lambda>f a. sub_row g w a f) fs a =
   map (\<lambda>i. a ! i - (\<Sum>f\<leftarrow>fs. FEATURE_WEIGHTS w ! (f * N_HIDDEN g + i))) [0..<N_HIDDEN g]"
proof (induction fs arbitrary: a)
  case Nil
  then show ?case using map_nth [of a] by simp
next
  case (Cons f fs)
  have "length (sub_row g w a f) = N_HIDDEN g" by (simp add: sub_row_def)
  from Cons.IH [OF this] show ?case
    by (simp add: sub_row_def algebra_simps)
qed

lemma fold_refresh_square:
  assumes "length a = N_HIDDEN g"
  shows "fold (refresh_square g w board kingSq perspective) sqs a =
         fold (\<lambda>f a. add_row g w a f)
           (map (\<lambda>sq. FeatureIdx g (squares board ! sq) sq kingSq perspective) sqs) a"
  using assms
proof (induction sqs arbitrary: a)
  case Nil
  show ?case by simp
next
  case (Cons sq sqs)
  have "length (add_row g w a f) = N_HIDDEN g" for f by (simp add: add_row_def)
  from Cons.IH [OF this] Cons.prems show ?case
    by (simp add: refresh_square_def add_feature_add_row)
qed

lemma RefreshAccumulator_accumulator_of:
  assumes "length (HIDDEN_BIASES w) = N_HIDDEN g"
  shows "RefreshAccumulator g w board perspective =
         accumulator_of g w (active_features g board perspective)"
proof -
  have "RefreshAccumulator g w board perspective =
        fold (\<lambda>f a. add_row g w a f) (active_features g board perspective) (HIDDEN_BIASES w)"
    using assms
    by (simp add: RefreshAccumulator_def refresh_loop_fold fold_refresh_square
        active_features_def feature_of_def [abs_def])
  then show ?thesis
    using assms by (simp add: fold_add_row accumulator_of_def)
qed

lemma accumulator_of_mset:
  "mset fs = mset fs' \<Longrightarrow> accumulator_of g w fs = accumulator_of g w fs'"
proof -
  assume eq: "mset fs = mset fs'"
  have "(\<Sum>f\<leftarrow>fs. h f) = (\<Sum>f\<leftarrow>fs'. h f)" for h :: "nat \<Rightarrow> int16_t"
  proof -
    have "sum_mset (image_mset h (mset fs)) = sum_mset (image_mset h (mset fs'))"
      by (simp add: eq)
    then show ?thesis by (simp add: sum_mset_sum_list flip: mset_map)
  qed
  then show ?thesis by (simp add: accumulator_of_def)
qed

subsection \<open>The refreshed Accumulator\<close>

text \<open>
  C7. With the arrays at their declared sizes, the Accumulator that \<open>RefreshAccumulator\<close>
  returns has \<open>N_HIDDEN\<close> lanes, and lane \<open>i\<close> is \<open>HIDDEN_BIASES[i]\<close> plus the sum,
  over the occupied squares, of lane \<open>i\<close> of the weight row of the square's feature.
  The order of enumeration does not matter: running the body of the loop over the
  occupied squares in any order, each square once, gives the same Accumulator.
\<close>

theorem RefreshAccumulator_sum:
  assumes "weights_ok g w"
  shows "length (RefreshAccumulator g w board perspective) = N_HIDDEN g
    \<and> (\<forall>i<N_HIDDEN g. RefreshAccumulator g w board perspective ! i =
          HIDDEN_BIASES w ! i +
          (\<Sum>sq | bit (OccBB board BOTH) sq.
             FEATURE_WEIGHTS w ! (feature_of g board perspective sq * N_HIDDEN g + i)))
    \<and> (\<forall>sqs. distinct sqs \<and> set sqs = {sq. bit (OccBB board BOTH) sq} \<longrightarrow>
          fold (refresh_square g w board (lsb (PieceBB_KING g board perspective)) perspective) sqs
            (take (N_HIDDEN g) (HIDDEN_BIASES w)) =
          RefreshAccumulator g w board perspective)"
proof -
  let ?occ = "OccBB board BOTH"
  have len: "length (HIDDEN_BIASES w) = N_HIDDEN g"
    using assms by (simp add: weights_ok_def)
  note closed = RefreshAccumulator_accumulator_of [OF len, of board perspective]
  have l: "length (RefreshAccumulator g w board perspective) = N_HIDDEN g"
    by (simp add: closed accumulator_of_def)
  have lanes: "RefreshAccumulator g w board perspective ! i =
      HIDDEN_BIASES w ! i +
      (\<Sum>sq | bit ?occ sq. FEATURE_WEIGHTS w ! (feature_of g board perspective sq * N_HIDDEN g + i))"
    if "i < N_HIDDEN g" for i
  proof -
    have "(\<Sum>f\<leftarrow>active_features g board perspective. FEATURE_WEIGHTS w ! (f * N_HIDDEN g + i)) =
          (\<Sum>sq\<leftarrow>occupied_squares ?occ.
             FEATURE_WEIGHTS w ! (feature_of g board perspective sq * N_HIDDEN g + i))"
      by (simp add: active_features_def comp_def)
    also have "\<dots> = (\<Sum>sq\<in>set (occupied_squares ?occ).
             FEATURE_WEIGHTS w ! (feature_of g board perspective sq * N_HIDDEN g + i))"
      by (rule sum_list_distinct_conv_sum_set) (rule distinct_occupied_squares)
    finally show ?thesis
      using that by (simp add: closed accumulator_of_def set_occupied_squares)
  qed
  have order: "fold (refresh_square g w board (lsb (PieceBB_KING g board perspective)) perspective)
        sqs (take (N_HIDDEN g) (HIDDEN_BIASES w)) = RefreshAccumulator g w board perspective"
    if "distinct sqs \<and> set sqs = {sq. bit ?occ sq}" for sqs
  proof -
    from that have "mset sqs = mset (occupied_squares ?occ)"
      by (simp add: set_eq_iff_mset_eq_distinct [symmetric] set_occupied_squares
          distinct_occupied_squares)
    then have m: "mset (map (feature_of g board perspective) sqs) =
        mset (active_features g board perspective)"
      by (simp add: active_features_def)
    have "fold (refresh_square g w board (lsb (PieceBB_KING g board perspective)) perspective)
        sqs (take (N_HIDDEN g) (HIDDEN_BIASES w)) =
        accumulator_of g w (map (feature_of g board perspective) sqs)"
      using len
      by (simp add: fold_refresh_square fold_add_row accumulator_of_def feature_of_def [abs_def])
    also have "\<dots> = accumulator_of g w (active_features g board perspective)"
      using m by (rule accumulator_of_mset)
    finally show ?thesis by (simp add: closed)
  qed
  from l lanes order show ?thesis by blast
qed

theorem RefreshAccumulator_sum_witness:
  "weights_ok ex_geometry ex_weights
   \<and> RefreshAccumulator ex_geometry ex_weights ex_before 0 = [19, 32]
   \<and> fold (refresh_square ex_geometry ex_weights ex_before 0 0) [2, 0, 1] [10, 20] = [19, 32]"
proof -
  have ok: "weights_ok ex_geometry ex_weights"
    by (simp add: weights_ok_def ex_geometry_def ex_weights_def)
  have r: "RefreshAccumulator ex_geometry ex_weights ex_before 0 = [19, 32]"
    by code_simp
  have k: "lsb (PieceBB_KING ex_geometry ex_before 0) = 0"
    by code_simp
  have b: "take (N_HIDDEN ex_geometry) (HIDDEN_BIASES ex_weights) = [10, 20]"
    by (simp add: ex_geometry_def ex_weights_def)
  have "occupied_squares (OccBB ex_before BOTH) = [0, 1, 2]"
    by code_simp
  then have "{sq. bit (OccBB ex_before BOTH) sq} = set [0, 1, 2]"
    by (simp only: set_occupied_squares [symmetric])
  then have s: "distinct [2, 0, 1 :: nat] \<and> set [2, 0, 1] = {sq. bit (OccBB ex_before BOTH) sq}"
    by auto
  from RefreshAccumulator_sum [OF ok, of ex_before 0, THEN conjunct2, THEN conjunct2, rule_format, OF s]
  have "fold (refresh_square ex_geometry ex_weights ex_before 0 0) [2, 0, 1] [10, 20] = [19, 32]"
    by (simp only: k b r)
  with ok r show ?thesis by simp
qed

subsection \<open>Predict\<close>

lemma local_acc_store_local: "local_acc (store_local s l a) l = a"
  by (cases l) (simp_all add: local_acc_def store_local_def)

lemma local_acc_store_local_other: "l' \<noteq> l \<Longrightarrow> local_acc (store_local s l a) l' = local_acc s l'"
  by (cases l; cases l') (simp_all add: local_acc_def store_local_def)

lemma store_local_twice: "store_local (store_local s l a) l a' = store_local s l a'"
  by (cases l) (simp_all add: store_local_def)

lemma store_local_same: "store_local s l (local_acc s l) = s"
  by (cases l) (simp_all add: local_acc_def store_local_def)

lemma st_board_store_local: "st_board (store_local s l a) = st_board s"
  by (cases l) (simp_all add: store_local_def)

lemma st_weights_store_local: "st_weights (store_local s l a) = st_weights s"
  by (cases l) (simp_all add: store_local_def)

lemma lanes_local:
  "fold (\<lambda>i s. store_local_lane s l i
           (local_acc s l ! i + FEATURE_WEIGHTS (st_weights s) ! (f * n + i))) js s =
   store_local s l
     (fold (\<lambda>i acc. acc[i := acc ! i + FEATURE_WEIGHTS (st_weights s) ! (f * n + i)]) js
        (local_acc s l))"
proof (induction js arbitrary: s)
  case Nil
  show ?case by (simp add: store_local_same)
next
  case (Cons j js)
  let ?v = "local_acc s l ! j + FEATURE_WEIGHTS (st_weights s) ! (f * n + j)"
  let ?s = "store_local_lane s l j ?v"
  have w: "st_weights ?s = st_weights s"
    by (simp add: store_local_lane_def st_weights_store_local)
  have a: "local_acc ?s l = (local_acc s l)[j := ?v]"
    by (simp add: store_local_lane_def local_acc_store_local)
  have "store_local ?s l x = store_local s l x" for x
    by (simp add: store_local_lane_def store_local_twice)
  then show ?case
    by (simp add: Cons.IH [of ?s] w a)
qed

lemma refresh_square_local_eq:
  "refresh_square_local g kingSq perspective l sq s =
   store_local s l
     (refresh_square g (st_weights s) (st_board s) kingSq perspective sq (local_acc s l))"
  by (simp add: refresh_square_local_def refresh_square_def add_feature_def Let_def lanes_local)

lemma refresh_loop_local_eq:
  "refresh_loop_local g kingSq perspective l occ s =
   store_local s l
     (refresh_loop g (st_weights s) (st_board s) kingSq perspective occ (local_acc s l))"
proof (induction g kingSq perspective l occ s rule: refresh_loop_local.induct)
  case (1 g kingSq perspective l occ s)
  show ?case
  proof (cases "occ = 0")
    case True
    then show ?thesis
      by (subst refresh_loop_local.simps, subst refresh_loop.simps) (simp add: store_local_same)
  next
    case False
    let ?sq = "fst (popAndGetLsb occ)"
    let ?a = "refresh_square g (st_weights s) (st_board s) kingSq perspective ?sq (local_acc s l)"
    have "refresh_loop_local g kingSq perspective l occ s =
          refresh_loop_local g kingSq perspective l (snd (popAndGetLsb occ)) (store_local s l ?a)"
      using False by (subst refresh_loop_local.simps) (simp add: refresh_square_local_eq)
    also have "\<dots> = store_local s l
        (refresh_loop g (st_weights s) (st_board s) kingSq perspective (snd (popAndGetLsb occ)) ?a)"
      using "1" [OF False]
      by (simp add: refresh_square_local_eq st_weights_store_local st_board_store_local
          local_acc_store_local store_local_twice)
    also have "refresh_loop g (st_weights s) (st_board s) kingSq perspective (snd (popAndGetLsb occ)) ?a =
        refresh_loop g (st_weights s) (st_board s) kingSq perspective occ (local_acc s l)"
      using False by (subst (2) refresh_loop.simps) simp
    finally show ?thesis .
  qed
qed

lemma RefreshAccumulator_local_eq:
  assumes "length (local_acc s l) = N_HIDDEN g"
  shows "RefreshAccumulator_local g l perspective s =
         store_local s l (RefreshAccumulator g (st_weights s) (st_board s) perspective)"
  using assms
  by (simp add: RefreshAccumulator_local_def RefreshAccumulator_def Let_def refresh_loop_local_eq
      st_weights_store_local st_board_store_local local_acc_store_local store_local_twice)

lemma Predict_eq:
  assumes "locals_ok g s"
  shows "Predict build g s =
    (OutputLayer build g (st_weights s)
       (RefreshAccumulator g (st_weights s) (st_board s) (stm (st_board s)))
       (RefreshAccumulator g (st_weights s) (st_board s) (xstm (st_board s))),
     s\<lparr>st_stm := RefreshAccumulator g (st_weights s) (st_board s) (stm (st_board s)),
       st_xstm := RefreshAccumulator g (st_weights s) (st_board s) (xstm (st_board s))\<rparr>)"
proof -
  let ?a1 = "RefreshAccumulator g (st_weights s) (st_board s) (stm (st_board s))"
  let ?a2 = "RefreshAccumulator g (st_weights s) (st_board s) (xstm (st_board s))"
  let ?s1 = "store_local s StmLocal ?a1"
  have l1: "length (local_acc s StmLocal) = N_HIDDEN g"
    and l2: "length (local_acc ?s1 XstmLocal) = N_HIDDEN g"
    using assms by (simp_all add: locals_ok_def local_acc_def store_local_def)
  have s1: "RefreshAccumulator_local g StmLocal (stm (st_board s)) s = ?s1"
    using l1 by (rule RefreshAccumulator_local_eq)
  have s2: "RefreshAccumulator_local g XstmLocal (xstm (st_board ?s1)) ?s1 =
      store_local ?s1 XstmLocal ?a2"
    using RefreshAccumulator_local_eq [OF l2, of "xstm (st_board ?s1)"]
    by (simp add: st_weights_store_local st_board_store_local)
  show ?thesis
    unfolding Predict_def Let_def s1 s2
    by (simp add: store_local_def)
qed

text \<open>
  C8. A call of \<open>Predict\<close> returns the output layer's value on the two Accumulators
  refreshed from the board and the weights: whatever the two local arrays hold when the
  call begins is overwritten before it is read. The call writes to its locals only: the
  board and the weights are as before when it returns. So a second call on the board the
  first one left, with anything whatsoever in its locals, returns the same score.
\<close>

theorem Predict_deterministic:
  assumes "locals_ok g s" and "length junk1 = N_HIDDEN g" and "length junk2 = N_HIDDEN g"
  shows "fst (Predict build g ((snd (Predict build g s))\<lparr>st_stm := junk1, st_xstm := junk2\<rparr>)) =
           fst (Predict build g s)
       \<and> st_board (snd (Predict build g s)) = st_board s
       \<and> st_weights (snd (Predict build g s)) = st_weights s
       \<and> fst (Predict build g s) =
           OutputLayer build g (st_weights s)
             (RefreshAccumulator g (st_weights s) (st_board s) (stm (st_board s)))
             (RefreshAccumulator g (st_weights s) (st_board s) (xstm (st_board s)))"
proof -
  let ?s' = "(snd (Predict build g s))\<lparr>st_stm := junk1, st_xstm := junk2\<rparr>"
  note first = Predict_eq [OF assms(1), of build]
  have frame: "st_board (snd (Predict build g s)) = st_board s"
    "st_weights (snd (Predict build g s)) = st_weights s"
    by (simp_all add: first)
  have "locals_ok g ?s'"
    using assms(2,3) by (simp add: locals_ok_def)
  then have second: "fst (Predict build g ?s') =
      OutputLayer build g (st_weights ?s')
        (RefreshAccumulator g (st_weights ?s') (st_board ?s') (stm (st_board ?s')))
        (RefreshAccumulator g (st_weights ?s') (st_board ?s') (xstm (st_board ?s')))"
    by (simp only: Predict_eq fst_conv)
  have same: "st_board ?s' = st_board s" "st_weights ?s' = st_weights s"
    by (simp_all add: frame)
  have "fst (Predict build g ?s') = fst (Predict build g s)"
    unfolding second same by (simp add: first)
  with frame first show ?thesis by simp
qed

theorem Predict_deterministic_witness:
  "locals_ok ex_geometry ex_state \<and> length [5, 6 :: int16_t] = N_HIDDEN ex_geometry
   \<and> length [- 7, 8 :: int16_t] = N_HIDDEN ex_geometry
   \<and> fst (Predict Scalar ex_geometry ex_state) = 15
   \<and> fst (Predict Scalar ex_geometry
        ((snd (Predict Scalar ex_geometry ex_state))\<lparr>st_stm := [5, 6], st_xstm := [- 7, 8]\<rparr>)) = 15
   \<and> st_board (snd (Predict Scalar ex_geometry ex_state)) = ex_after
   \<and> st_weights (snd (Predict Scalar ex_geometry ex_state)) = ex_weights_out"
proof -
  have ok: "locals_ok ex_geometry ex_state"
    by (simp add: locals_ok_def ex_geometry_def ex_state_def)
  have j1: "length [5, 6 :: int16_t] = N_HIDDEN ex_geometry"
    and j2: "length [- 7, 8 :: int16_t] = N_HIDDEN ex_geometry"
    by (simp_all add: ex_geometry_def)
  have v: "fst (Predict Scalar ex_geometry ex_state) = 15"
    by code_simp
  have b: "st_board ex_state = ex_after" "st_weights ex_state = ex_weights_out"
    by (simp_all add: ex_state_def)
  from Predict_deterministic [OF ok j1 j2, of Scalar] ok j1 j2 v b show ?thesis
    by simp
qed

subsection \<open>Incremental update against full refresh\<close>

lemma fold_index:
  "n \<le> length xs \<Longrightarrow>
   fold (\<lambda>i a. F a (xs ! i)) [m..<n] a = fold (\<lambda>f a. F a f) (drop m (take n xs)) a"
proof -
  assume n: "n \<le> length xs"
  have "drop m (take n xs) = map ((!) xs) [m..<n]"
  proof (rule nth_equalityI)
    show "length (drop m (take n xs)) = length (map ((!) xs) [m..<n])"
      using n by simp
  next
    fix i
    assume "i < length (drop m (take n xs))"
    then have i: "i < n - m" using n by simp
    then have "drop m (take n xs) ! i = xs ! (m + i)" using n by simp
    moreover have "map ((!) xs) [m..<n] ! i = xs ! (m + i)"
      using i by (rule nth_map_upt)
    ultimately show "drop m (take n xs) ! i = map ((!) xs) [m..<n] ! i" by simp
  qed
  then show ?thesis by (simp add: fold_map comp_def)
qed

lemma ApplyUpdates_lanes:
  assumes ok: "board_ok g board c" and nz: "nr updates \<noteq> 0"
    and nr: "nr updates \<le> length (removals updates)"
    and na: "na updates \<le> length (additions updates)"
  shows "acc_at (ApplyUpdates g w board c updates) c (ply board) =
         map (\<lambda>i. acc_at board c (ply board - 1) ! i
                 - (\<Sum>f\<leftarrow>take (nr updates) (removals updates). FEATURE_WEIGHTS w ! (f * N_HIDDEN g + i))
                 + (\<Sum>f\<leftarrow>take (na updates) (additions updates). FEATURE_WEIGHTS w ! (f * N_HIDDEN g + i)))
           [0..<N_HIDDEN g]"
proof -
  let ?prev = "acc_at board c (ply board - 1)"
  let ?rs = "take (nr updates) (removals updates)" and ?as = "take (na updates) (additions updates)"
  have in1: "c < length (accumulators board)" and in2: "ply board < length (accumulators board ! c)"
    and len: "length ?prev = N_HIDDEN g"
    using ok by (simp_all add: board_ok_def)
  have rs: "?rs = removals updates ! 0 # drop 1 ?rs"
  proof (cases "removals updates")
    case Nil
    with nz nr show ?thesis by simp
  next
    case (Cons r rest)
    obtain k where "nr updates = Suc k"
      using nz by (cases "nr updates") simp_all
    with Cons show ?thesis by simp
  qed
  have "fold (\<lambda>i a. sub_row g w a (removals updates ! i)) [1..<nr updates]
          (sub_row g w ?prev (removals updates ! 0)) =
        fold (\<lambda>f a. sub_row g w a f) (removals updates ! 0 # drop 1 ?rs) ?prev"
    by (simp add: fold_index [OF nr])
  also have "\<dots> = fold (\<lambda>f a. sub_row g w a f) ?rs ?prev"
    using rs by simp
  also have "\<dots> = map (\<lambda>i. ?prev ! i - (\<Sum>f\<leftarrow>?rs. FEATURE_WEIGHTS w ! (f * N_HIDDEN g + i)))
      [0..<N_HIDDEN g]" (is "_ = ?a2")
    using len by (rule fold_sub_row)
  finally have subs: "fold (\<lambda>i a. sub_row g w a (removals updates ! i)) [1..<nr updates]
          (sub_row g w ?prev (removals updates ! 0)) = ?a2" .
  have adds: "fold (\<lambda>i a. add_row g w a (additions updates ! i)) [0..<na updates] ?a2 =
      map (\<lambda>i. ?a2 ! i + (\<Sum>f\<leftarrow>?as. FEATURE_WEIGHTS w ! (f * N_HIDDEN g + i))) [0..<N_HIDDEN g]"
    using fold_index [OF na, of "add_row g w" 0 ?a2] by (simp add: fold_add_row)
  have "acc_at (ApplyUpdates g w board c updates) c (ply board) =
        map (\<lambda>i. ?a2 ! i + (\<Sum>f\<leftarrow>?as. FEATURE_WEIGHTS w ! (f * N_HIDDEN g + i))) [0..<N_HIDDEN g]"
    by (simp only: ApplyUpdates_update [OF ok nz] acc_at_store_acc_same [OF in1 in2] subs adds)
  then show ?thesis by simp
qed

lemma ApplyUpdates_refresh_guarded:
  assumes ok: "board_ok g board c" and w: "weights_ok g w"
    and nr: "nr updates \<le> length (removals updates)"
    and na: "na updates \<le> length (additions updates)"
    and prev: "acc_at board c (ply board - 1) =
                 accumulator_of g w (active_features g board_before c)"
    and diff: "mset (active_features g board c) + mset (take (nr updates) (removals updates)) =
               mset (active_features g board_before c) + mset (take (na updates) (additions updates))"
    and guard: "nr updates = 0 \<longrightarrow> na updates = 0"
  shows "acc_at (ApplyUpdates g w board c updates) c (ply board) = RefreshAccumulator g w board c
       \<and> acc_at (ApplyUpdates g w board c updates) c (ply board) =
           accumulator_of g w (active_features g board c)"
proof -
  let ?new = "acc_at (ApplyUpdates g w board c updates) c (ply board)"
  let ?rs = "take (nr updates) (removals updates)" and ?as = "take (na updates) (additions updates)"
  let ?after = "active_features g board c" and ?before = "active_features g board_before c"
  have len: "length (HIDDEN_BIASES w) = N_HIDDEN g"
    using w by (simp add: weights_ok_def)
  have new: "?new = accumulator_of g w ?after"
  proof (cases "nr updates = 0")
    case True
    with guard diff have "mset ?before = mset ?after" by simp
    then have "accumulator_of g w ?before = accumulator_of g w ?after"
      by (rule accumulator_of_mset)
    then show ?thesis
      using ApplyUpdates_copy [OF ok True, of w] ok prev
      by (simp add: acc_at_store_acc_same board_ok_def)
  next
    case False
    have sums: "(\<Sum>f\<leftarrow>?before. h f) - (\<Sum>f\<leftarrow>?rs. h f) + (\<Sum>f\<leftarrow>?as. h f) = (\<Sum>f\<leftarrow>?after. h f)"
      for h :: "nat \<Rightarrow> int16_t"
    proof -
      have "sum_mset (image_mset h (mset ?after + mset ?rs)) =
            sum_mset (image_mset h (mset ?before + mset ?as))"
        by (simp only: diff)
      then have "(\<Sum>f\<leftarrow>?after. h f) + (\<Sum>f\<leftarrow>?rs. h f) = (\<Sum>f\<leftarrow>?before. h f) + (\<Sum>f\<leftarrow>?as. h f)"
        by (simp add: sum_mset_sum_list flip: mset_map)
      then show ?thesis by (simp add: algebra_simps)
    qed
    have "?new ! i = accumulator_of g w ?after ! i" if i: "i < N_HIDDEN g" for i
    proof -
      let ?h = "\<lambda>f. FEATURE_WEIGHTS w ! (f * N_HIDDEN g + i)"
      have p: "acc_at board c (ply board - 1) ! i = HIDDEN_BIASES w ! i + (\<Sum>f\<leftarrow>?before. ?h f)"
        using i prev by (simp add: accumulator_of_def)
      have "?new ! i = acc_at board c (ply board - 1) ! i - (\<Sum>f\<leftarrow>?rs. ?h f) + (\<Sum>f\<leftarrow>?as. ?h f)"
        using i by (simp add: ApplyUpdates_lanes [OF ok False nr na])
      also have "\<dots> = HIDDEN_BIASES w ! i + ((\<Sum>f\<leftarrow>?before. ?h f) - (\<Sum>f\<leftarrow>?rs. ?h f) + (\<Sum>f\<leftarrow>?as. ?h f))"
        by (simp only: p) simp
      also have "\<dots> = HIDDEN_BIASES w ! i + (\<Sum>f\<leftarrow>?after. ?h f)"
        by (simp only: sums)
      finally show ?thesis using i by (simp add: accumulator_of_def)
    qed
    then show ?thesis
      by (intro nth_equalityI)
        (simp_all add: ApplyUpdates_lanes [OF ok False nr na] accumulator_of_def)
  qed
  then show ?thesis
    by (simp add: RefreshAccumulator_accumulator_of [OF len])
qed

text \<open>
  C1. At a reachable ply the diff is the diff of a move, and a move puts no new piece on
  the board: the position after it has at most as many occupied squares, hence active
  features, as the position before. Let the Accumulator of the previous ply be
  \<open>HIDDEN_BIASES\<close> plus the weight rows of the features active on the board before the
  move, and let the diff describe the change of the features exactly: the features after
  the move together with the removed ones are the features before together with the
  added ones. Then \<open>ApplyUpdates\<close> leaves at the current ply, lane for lane, the
  Accumulator that \<open>RefreshAccumulator\<close> computes on the board after the move, which is
  \<open>HIDDEN_BIASES\<close> plus the weight rows of the features active after the move.
\<close>

theorem ApplyUpdates_matches_refresh:
  assumes ok: "board_ok g board c" and w: "weights_ok g w"
    and nr: "nr updates \<le> length (removals updates)"
    and na: "na updates \<le> length (additions updates)"
    and prev: "acc_at board c (ply board - 1) =
                 accumulator_of g w (active_features g board_before c)"
    and diff: "mset (active_features g board c) + mset (take (nr updates) (removals updates)) =
               mset (active_features g board_before c) + mset (take (na updates) (additions updates))"
    and move: "length (active_features g board c) \<le> length (active_features g board_before c)"
  shows "acc_at (ApplyUpdates g w board c updates) c (ply board) = RefreshAccumulator g w board c
       \<and> acc_at (ApplyUpdates g w board c updates) c (ply board) =
           accumulator_of g w (active_features g board c)"
proof -
  have "size (mset (active_features g board c) + mset (take (nr updates) (removals updates))) =
        size (mset (active_features g board_before c) + mset (take (na updates) (additions updates)))"
    by (simp only: diff)
  then have "length (active_features g board c) + nr updates =
             length (active_features g board_before c) + na updates"
    using nr na by simp
  with move have "na updates \<le> nr updates" by simp
  then have guard: "nr updates = 0 \<longrightarrow> na updates = 0" by simp
  from ok w nr na prev diff guard show ?thesis
    by (rule ApplyUpdates_refresh_guarded)
qed

theorem ApplyUpdates_matches_refresh_witness:
  "board_ok ex_geometry ex_after 0 \<and> weights_ok ex_geometry ex_weights
   \<and> nr ex_update \<le> length (removals ex_update) \<and> na ex_update \<le> length (additions ex_update)
   \<and> acc_at ex_after 0 (ply ex_after - 1) =
       accumulator_of ex_geometry ex_weights (active_features ex_geometry ex_before 0)
   \<and> mset (active_features ex_geometry ex_after 0) + mset (take (nr ex_update) (removals ex_update)) =
       mset (active_features ex_geometry ex_before 0) + mset (take (na ex_update) (additions ex_update))
   \<and> length (active_features ex_geometry ex_after 0) \<le> length (active_features ex_geometry ex_before 0)
   \<and> acc_at (ApplyUpdates ex_geometry ex_weights ex_after 0 ex_update) 0 (ply ex_after) =
       RefreshAccumulator ex_geometry ex_weights ex_after 0
   \<and> RefreshAccumulator ex_geometry ex_weights ex_after 0 = [21, 34]"
proof -
  have ok: "board_ok ex_geometry ex_after 0"
    by (simp add: board_ok_def ex_geometry_def ex_after_def ex_board_def acc_at_def)
  have w: "weights_ok ex_geometry ex_weights"
    by (simp add: weights_ok_def ex_geometry_def ex_weights_def)
  have nr: "nr ex_update \<le> length (removals ex_update)"
    and na: "na ex_update \<le> length (additions ex_update)"
    by (simp_all add: ex_update_def)
  have fb: "active_features ex_geometry ex_before 0 = [0, 1, 2]"
    and fa: "active_features ex_geometry ex_after 0 = [0, 1, 3]"
    by code_simp+
  have prev: "acc_at ex_after 0 (ply ex_after - 1) =
       accumulator_of ex_geometry ex_weights (active_features ex_geometry ex_before 0)"
    unfolding fb by code_simp
  have diff: "mset (active_features ex_geometry ex_after 0) + mset (take (nr ex_update) (removals ex_update)) =
       mset (active_features ex_geometry ex_before 0) + mset (take (na ex_update) (additions ex_update))"
    unfolding fb fa by (simp add: ex_update_def)
  have move: "length (active_features ex_geometry ex_after 0)
      \<le> length (active_features ex_geometry ex_before 0)"
    unfolding fb fa by simp
  have r: "RefreshAccumulator ex_geometry ex_weights ex_after 0 = [21, 34]"
    by code_simp
  from ApplyUpdates_matches_refresh [OF ok w nr na prev diff move] ok w nr na prev diff move r
  show ?thesis by blast
qed

subsection \<open>The three kernels of OutputLayer\<close>

text \<open>The terms the kernels add up: the rectified lane times its weight, as an \<open>int\<close>.\<close>

lemma scalar_loop_sum:
  "fold (\<lambda>i result. (result + p i) + q i) [0..<n] (r :: int32_t) =
   r + (\<Sum>i<n. p i) + (\<Sum>i<n. q i)"
  by (induction n) (simp_all add: algebra_simps)

lemma OutputLayer_scalar_sum:
  "OutputLayer_scalar g w stm_acc xstm_acc =
   c_div (c_div (OUTPUT_BIAS w * QUANTIZATION_PRECISION_IN
       + (\<Sum>i<N_HIDDEN g. c_max (scast (stm_acc ! i)) 0 * scast (HIDDEN_WEIGHTS w ! i))
       + (\<Sum>i<N_HIDDEN g. c_max (scast (xstm_acc ! i)) 0 * scast (HIDDEN_WEIGHTS w ! (i + N_HIDDEN g))))
     QUANTIZATION_PRECISION_IN) QUANTIZATION_PRECISION_OUT"
  by (simp add: OutputLayer_scalar_def Let_def scalar_loop_sum)

lemma scast_max_epi16:
  "(scast (if sint x > sint (0 :: int16_t) then x else 0) :: int32_t) = c_max (scast x) 0"
  for x :: int16_t
proof -
  have "sint (scast x :: int32_t) = sint x"
    by (rule sint_up_scast) (simp add: is_up)
  then show ?thesis by (simp add: c_max_def)
qed

lemma madd_lanes:
  assumes "off + width \<le> length a" "offw + width \<le> length hw"
  shows "madd_epi16 (max_epi16 (load_epi16 a off width) (replicate width 0))
           (load_epi16 hw offw width) =
         map (\<lambda>k. c_max (scast (a ! (off + 2 * k))) 0 * scast (hw ! (offw + 2 * k))
                + c_max (scast (a ! (off + (2 * k + 1)))) 0 * scast (hw ! (offw + (2 * k + 1))))
           [0..<width div 2]"
proof -
  have len: "length (max_epi16 (load_epi16 a off width) (replicate width 0)) = width"
    using assms(1) by (simp add: max_epi16_def load_epi16_def)
  have lane: "scast (max_epi16 (load_epi16 a off width) (replicate width 0) ! i) =
      c_max (scast (a ! (off + i))) 0" if "i < width" for i
    using that assms(1) by (simp add: max_epi16_def load_epi16_def scast_max_epi16 [symmetric])
  have wlane: "load_epi16 hw offw width ! i = hw ! (offw + i)" if "i < width" for i
    using that assms(2) by (simp add: load_epi16_def)
  show ?thesis
    unfolding madd_epi16_def len
    by (rule map_cong [OF refl]) (simp add: lane wlane)
qed

lemma add_epi32_maps:
  "add_epi32 (map f [0..<n]) (map h [0..<n]) = map (\<lambda>k. f k + h k) [0..<n]"
  by (simp add: add_epi32_def zip_map_map zip_same_conv_map)

lemma madd_loop_lanes:
  assumes "chunks * width \<le> N_HIDDEN g" and "output_ok g w stm_acc xstm_acc"
  shows "madd_loop g w width chunks stm_acc xstm_acc =
    (map (\<lambda>k. \<Sum>j<chunks.
            c_max (scast (stm_acc ! (j * width + 2 * k))) 0
              * scast (HIDDEN_WEIGHTS w ! (j * width + 2 * k))
          + c_max (scast (stm_acc ! (j * width + (2 * k + 1)))) 0
              * scast (HIDDEN_WEIGHTS w ! (j * width + (2 * k + 1)))) [0..<width div 2],
     map (\<lambda>k. \<Sum>j<chunks.
            c_max (scast (xstm_acc ! (j * width + 2 * k))) 0
              * scast (HIDDEN_WEIGHTS w ! (j * width + N_HIDDEN g + 2 * k))
          + c_max (scast (xstm_acc ! (j * width + (2 * k + 1)))) 0
              * scast (HIDDEN_WEIGHTS w ! (j * width + N_HIDDEN g + (2 * k + 1)))) [0..<width div 2])"
  using assms(1)
proof (induction chunks)
  case 0
  show ?case
    by (simp add: madd_loop_def map_replicate_const)
next
  case (Suc chunks)
  have lens: "length stm_acc = N_HIDDEN g" "length xstm_acc = N_HIDDEN g"
    "length (HIDDEN_WEIGHTS w) = 2 * N_HIDDEN g"
    using assms(2) by (simp_all add: output_ok_def)
  from Suc.prems have b: "chunks * width + width \<le> N_HIDDEN g" "chunks * width \<le> N_HIDDEN g"
    by simp_all
  have m0: "madd_epi16 (max_epi16 (load_epi16 stm_acc (chunks * width) width) (replicate width 0))
        (load_epi16 (HIDDEN_WEIGHTS w) (chunks * width) width) =
      map (\<lambda>k. c_max (scast (stm_acc ! (chunks * width + 2 * k))) 0
                * scast (HIDDEN_WEIGHTS w ! (chunks * width + 2 * k))
              + c_max (scast (stm_acc ! (chunks * width + (2 * k + 1)))) 0
                * scast (HIDDEN_WEIGHTS w ! (chunks * width + (2 * k + 1)))) [0..<width div 2]"
    using b lens by (intro madd_lanes) simp_all
  have m1: "madd_epi16 (max_epi16 (load_epi16 xstm_acc (chunks * width) width) (replicate width 0))
        (load_epi16 (HIDDEN_WEIGHTS w) (chunks * width + N_HIDDEN g) width) =
      map (\<lambda>k. c_max (scast (xstm_acc ! (chunks * width + 2 * k))) 0
                * scast (HIDDEN_WEIGHTS w ! (chunks * width + N_HIDDEN g + 2 * k))
              + c_max (scast (xstm_acc ! (chunks * width + (2 * k + 1)))) 0
                * scast (HIDDEN_WEIGHTS w ! (chunks * width + N_HIDDEN g + (2 * k + 1))))
        [0..<width div 2]"
    using b lens by (intro madd_lanes) simp_all
  have "madd_loop g w width (Suc chunks) stm_acc xstm_acc =
    (case madd_loop g w width chunks stm_acc xstm_acc of (s0, s1) \<Rightarrow>
      (add_epi32 s0 (madd_epi16 (max_epi16 (load_epi16 stm_acc (chunks * width) width) (replicate width 0))
          (load_epi16 (HIDDEN_WEIGHTS w) (chunks * width) width)),
       add_epi32 s1 (madd_epi16 (max_epi16 (load_epi16 xstm_acc (chunks * width) width) (replicate width 0))
          (load_epi16 (HIDDEN_WEIGHTS w) (chunks * width + N_HIDDEN g) width))))"
    by (simp add: madd_loop_def Let_def)
  then show ?case
    by (simp only: Suc.IH [OF b(2)] m0 m1 add_epi32_maps prod.case sum.lessThan_Suc)
qed

lemma pair_sum:
  "(\<Sum>k<h. P (m + 2 * k) + P (m + (2 * k + 1))) = (\<Sum>i<2 * h. P (m + i))"
  for P :: "nat \<Rightarrow> int32_t"
  by (induction h) (simp_all add: algebra_simps)

lemma lanes_total:
  "(\<Sum>k<h. \<Sum>j<chunks. P (j * (2 * h) + 2 * k) + P (j * (2 * h) + (2 * k + 1))) =
   (\<Sum>i<chunks * (2 * h). P i)"
  for P :: "nat \<Rightarrow> int32_t"
proof -
  have "(\<Sum>k<h. \<Sum>j<chunks. P (j * (2 * h) + 2 * k) + P (j * (2 * h) + (2 * k + 1))) =
        (\<Sum>j<chunks. \<Sum>k<h. P (j * (2 * h) + 2 * k) + P (j * (2 * h) + (2 * k + 1)))"
    by (rule sum.swap)
  also have "\<dots> = (\<Sum>j<chunks. \<Sum>i<2 * h. P (j * (2 * h) + i))"
    by (simp only: pair_sum)
  also have "\<dots> = (\<Sum>j<chunks. sum P {j * (2 * h)..<j * (2 * h) + 2 * h})"
  proof (rule sum.cong [OF refl])
    fix j
    have "sum P {0 + j * (2 * h)..<2 * h + j * (2 * h)} = (\<Sum>i = 0..<2 * h. P (i + j * (2 * h)))"
      by (rule sum.shift_bounds_nat_ivl)
    then show "(\<Sum>i<2 * h. P (j * (2 * h) + i)) = sum P {j * (2 * h)..<j * (2 * h) + 2 * h}"
      by (simp add: add.commute lessThan_atLeast0)
  qed
  also have "\<dots> = sum P {..<chunks * (2 * h)}"
    by (rule sum.nat_group)
  finally show ?thesis .
qed

lemma sum_list_lanes: "sum_list (map f [0..<n]) = (\<Sum>k<n. f k)"
  for f :: "nat \<Rightarrow> int32_t"
  by (induction n) simp_all

lemma four_lanes:
  assumes "length r = 4"
  obtains a b c d where "r = [a, b, c, d]"
proof -
  from assms obtain a r1 where 1: "r = a # r1" "length r1 = 3"
    by (cases r) simp_all
  then obtain b r2 where 2: "r1 = b # r2" "length r2 = 2"
    by (cases r1) simp_all
  then obtain c r3 where 3: "r2 = c # r3" "length r3 = 1"
    by (cases r2) simp_all
  then obtain d where "r3 = [d]"
    by (cases r3) simp_all
  with 1 2 3 that show thesis by simp
qed

lemma hsum4:
  assumes "length r4 = 4"
  shows "mm_cvtsi128_si32
           (add_epi32 (add_epi32 r4 (mm_srli_si128 r4 8))
              (mm_srli_si128 (add_epi32 r4 (mm_srli_si128 r4 8)) 4)) = sum_list r4"
proof -
  from assms obtain a b c d where "r4 = [a, b, c, d]" by (rule four_lanes)
  then show ?thesis
    by (simp add: mm_cvtsi128_si32_def add_epi32_def mm_srli_si128_def)
qed

lemma halves8:
  assumes "length r8 = 8"
  shows "length (add_epi32 (mm256_castsi256_si128 r8) (mm256_extractf128_si256_1 r8)) = 4"
    and "sum_list (add_epi32 (mm256_castsi256_si128 r8) (mm256_extractf128_si256_1 r8)) = sum_list r8"
proof -
  let ?lo = "take 4 r8" and ?hi = "drop 4 r8"
  have r8: "r8 = ?lo @ ?hi" by simp
  have "length ?lo = 4" "length ?hi = 4" using assms by simp_all
  then obtain a b c d a' b' c' d' where l: "?lo = [a, b, c, d]" and h: "?hi = [a', b', c', d']"
    by (elim four_lanes)
  have "sum_list r8 = sum_list ?lo + sum_list ?hi"
    by (subst r8) (simp only: sum_list_append)
  then show "sum_list (add_epi32 (mm256_castsi256_si128 r8) (mm256_extractf128_si256_1 r8)) = sum_list r8"
    by (simp add: add_epi32_def mm256_castsi256_si128_def mm256_extractf128_si256_1_def l h)
  show "length (add_epi32 (mm256_castsi256_si128 r8) (mm256_extractf128_si256_1 r8)) = 4"
    using assms by (simp add: add_epi32_def mm256_castsi256_si128_def mm256_extractf128_si256_1_def)
qed

lemma vector_kernel_sum:
  assumes ok: "output_ok g w stm_acc xstm_acc" and full: "chunks * (2 * h) = N_HIDDEN g"
  shows "(case madd_loop g w (2 * h) chunks stm_acc xstm_acc of (s0, s1) \<Rightarrow>
            sum_list (add_epi32 s0 s1)) =
         (\<Sum>i<N_HIDDEN g. c_max (scast (stm_acc ! i)) 0 * scast (HIDDEN_WEIGHTS w ! i))
       + (\<Sum>i<N_HIDDEN g. c_max (scast (xstm_acc ! i)) 0 * scast (HIDDEN_WEIGHTS w ! (i + N_HIDDEN g)))"
    and "(case madd_loop g w (2 * h) chunks stm_acc xstm_acc of (s0, s1) \<Rightarrow>
            length (add_epi32 s0 s1)) = h"
proof -
  let ?P = "\<lambda>i. c_max (scast (stm_acc ! i)) 0 * scast (HIDDEN_WEIGHTS w ! i)"
  let ?Q = "\<lambda>i. c_max (scast (xstm_acc ! i)) 0 * scast (HIDDEN_WEIGHTS w ! (i + N_HIDDEN g))"
  have le: "chunks * (2 * h) \<le> N_HIDDEN g" using full by simp
  have q: "HIDDEN_WEIGHTS w ! (j * (2 * h) + N_HIDDEN g + i) = HIDDEN_WEIGHTS w ! (j * (2 * h) + i + N_HIDDEN g)"
    for i j by (simp add: ac_simps)
  have loop: "madd_loop g w (2 * h) chunks stm_acc xstm_acc =
      (map (\<lambda>k. \<Sum>j<chunks. ?P (j * (2 * h) + 2 * k) + ?P (j * (2 * h) + (2 * k + 1))) [0..<h],
       map (\<lambda>k. \<Sum>j<chunks. ?Q (j * (2 * h) + 2 * k) + ?Q (j * (2 * h) + (2 * k + 1))) [0..<h])"
    by (simp only: madd_loop_lanes [OF le ok] q) simp
  let ?S0 = "\<lambda>k. \<Sum>j<chunks. ?P (j * (2 * h) + 2 * k) + ?P (j * (2 * h) + (2 * k + 1))"
  let ?S1 = "\<lambda>k. \<Sum>j<chunks. ?Q (j * (2 * h) + 2 * k) + ?Q (j * (2 * h) + (2 * k + 1))"
  have r: "add_epi32 (map ?S0 [0..<h]) (map ?S1 [0..<h]) = map (\<lambda>k. ?S0 k + ?S1 k) [0..<h]"
    by (rule add_epi32_maps)
  have "sum_list (map (\<lambda>k. ?S0 k + ?S1 k) [0..<h]) = (\<Sum>k<h. ?S0 k + ?S1 k)"
    by (rule sum_list_lanes)
  also have "\<dots> = (\<Sum>k<h. ?S0 k) + (\<Sum>k<h. ?S1 k)"
    by (rule sum.distrib)
  also have "(\<Sum>k<h. ?S0 k) = (\<Sum>i<chunks * (2 * h). ?P i)"
    by (rule lanes_total)
  also have "(\<Sum>k<h. ?S1 k) = (\<Sum>i<chunks * (2 * h). ?Q i)"
    by (rule lanes_total)
  finally have total: "sum_list (map (\<lambda>k. ?S0 k + ?S1 k) [0..<h]) =
      (\<Sum>i<N_HIDDEN g. ?P i) + (\<Sum>i<N_HIDDEN g. ?Q i)"
    by (simp only: full)
  show "(case madd_loop g w (2 * h) chunks stm_acc xstm_acc of (s0, s1) \<Rightarrow>
            sum_list (add_epi32 s0 s1)) = (\<Sum>i<N_HIDDEN g. ?P i) + (\<Sum>i<N_HIDDEN g. ?Q i)"
    by (simp only: loop prod.case r total)
  show "(case madd_loop g w (2 * h) chunks stm_acc xstm_acc of (s0, s1) \<Rightarrow>
            length (add_epi32 s0 s1)) = h"
    by (simp only: loop prod.case r length_map length_upt diff_zero)
qed

text \<open>
  C2. On inputs of the declared sizes, for a hidden width that the vector loops cover
  (a multiple of 16, the lanes of an AVX2 register), the AVX2 kernel, the SSE kernel and
  the scalar kernel return the same \<open>int\<close>, bit for bit, for every pair of Accumulators and
  every weight store.
\<close>

theorem OutputLayer_kernels_agree:
  assumes ok: "output_ok g w stm_acc xstm_acc" and width: "16 dvd N_HIDDEN g"
  shows "OutputLayer AVX2 g w stm_acc xstm_acc = OutputLayer Scalar g w stm_acc xstm_acc
       \<and> OutputLayer SSE g w stm_acc xstm_acc = OutputLayer Scalar g w stm_acc xstm_acc"
proof -
  let ?P = "\<lambda>i. c_max (scast (stm_acc ! i)) 0 * scast (HIDDEN_WEIGHTS w ! i)"
  let ?Q = "\<lambda>i. c_max (scast (xstm_acc ! i)) 0 * scast (HIDDEN_WEIGHTS w ! (i + N_HIDDEN g))"
  let ?total = "OUTPUT_BIAS w * QUANTIZATION_PRECISION_IN + ((\<Sum>i<N_HIDDEN g. ?P i) + (\<Sum>i<N_HIDDEN g. ?Q i))"
  have scalar: "OutputLayer_scalar g w stm_acc xstm_acc =
      c_div (c_div ?total QUANTIZATION_PRECISION_IN) QUANTIZATION_PRECISION_OUT"
    by (simp add: OutputLayer_scalar_sum add.assoc)
  have full16: "N_HIDDEN g div 16 * (2 * 8) = N_HIDDEN g"
    using width by simp
  have "8 dvd N_HIDDEN g" using width by (rule dvd_trans [rotated]) simp
  then have full8: "N_HIDDEN g div 8 * (2 * 4) = N_HIDDEN g"
    by simp
  obtain a0 a1 where a: "madd_loop g w 16 (N_HIDDEN g div 16) stm_acc xstm_acc = (a0, a1)"
    by (cases "madd_loop g w 16 (N_HIDDEN g div 16) stm_acc xstm_acc")
  obtain b0 b1 where b: "madd_loop g w 8 (N_HIDDEN g div 8) stm_acc xstm_acc = (b0, b1)"
    by (cases "madd_loop g w 8 (N_HIDDEN g div 8) stm_acc xstm_acc")
  have a_sum: "sum_list (add_epi32 a0 a1) = (\<Sum>i<N_HIDDEN g. ?P i) + (\<Sum>i<N_HIDDEN g. ?Q i)"
    and a_len: "length (add_epi32 a0 a1) = 8"
    using vector_kernel_sum [OF ok full16] by (simp_all add: a)
  have b_sum: "sum_list (add_epi32 b0 b1) = (\<Sum>i<N_HIDDEN g. ?P i) + (\<Sum>i<N_HIDDEN g. ?Q i)"
    and b_len: "length (add_epi32 b0 b1) = 4"
    using vector_kernel_sum [OF ok full8] by (simp_all add: b)
  have "mm_cvtsi128_si32
           (add_epi32
             (add_epi32 (add_epi32 (mm256_castsi256_si128 (add_epi32 a0 a1))
                  (mm256_extractf128_si256_1 (add_epi32 a0 a1)))
                (mm_srli_si128 (add_epi32 (mm256_castsi256_si128 (add_epi32 a0 a1))
                  (mm256_extractf128_si256_1 (add_epi32 a0 a1))) 8))
             (mm_srli_si128
               (add_epi32 (add_epi32 (mm256_castsi256_si128 (add_epi32 a0 a1))
                  (mm256_extractf128_si256_1 (add_epi32 a0 a1)))
                (mm_srli_si128 (add_epi32 (mm256_castsi256_si128 (add_epi32 a0 a1))
                  (mm256_extractf128_si256_1 (add_epi32 a0 a1))) 8)) 4)) =
        sum_list (add_epi32 a0 a1)"
    by (simp only: hsum4 [OF halves8(1) [OF a_len]] halves8(2) [OF a_len])
  then have avx2: "OutputLayer_avx2 g w stm_acc xstm_acc =
      c_div (c_div ?total QUANTIZATION_PRECISION_IN) QUANTIZATION_PRECISION_OUT"
    unfolding OutputLayer_avx2_def Let_def a prod.case by (simp only: a_sum)
  have sse: "OutputLayer_sse g w stm_acc xstm_acc =
      c_div (c_div ?total QUANTIZATION_PRECISION_IN) QUANTIZATION_PRECISION_OUT"
    unfolding OutputLayer_sse_def Let_def b prod.case by (simp only: hsum4 [OF b_len] b_sum)
  show ?thesis
    by (simp add: OutputLayer_def scalar avx2 sse)
qed

theorem OutputLayer_kernels_agree_witness:
  "output_ok ex_geometry16 ex_weights16 ex_stm16 ex_xstm16 \<and> 16 dvd N_HIDDEN ex_geometry16
   \<and> OutputLayer AVX2 ex_geometry16 ex_weights16 ex_stm16 ex_xstm16 =
       OutputLayer Scalar ex_geometry16 ex_weights16 ex_stm16 ex_xstm16
   \<and> OutputLayer SSE ex_geometry16 ex_weights16 ex_stm16 ex_xstm16 =
       OutputLayer Scalar ex_geometry16 ex_weights16 ex_stm16 ex_xstm16
   \<and> OutputLayer Scalar ex_geometry16 ex_weights16 ex_stm16 ex_xstm16 = - 207"
proof -
  have ok: "output_ok ex_geometry16 ex_weights16 ex_stm16 ex_xstm16"
    by (simp add: output_ok_def ex_geometry16_def ex_weights16_def ex_stm16_def ex_xstm16_def)
  have width: "16 dvd N_HIDDEN ex_geometry16"
    by (simp add: ex_geometry16_def)
  have v: "OutputLayer Scalar ex_geometry16 ex_weights16 ex_stm16 ex_xstm16 = - 207"
    by code_simp
  from OutputLayer_kernels_agree [OF ok width] ok width v show ?thesis by blast
qed

subsection \<open>The value of OutputLayer\<close>

lemma sint_int32:
  "- (2 ^ 31) \<le> k \<Longrightarrow> k < 2 ^ 31 \<Longrightarrow> sint (word_of_int k :: int32_t) = k"
  by (simp add: sint_sbintrunc' signed_take_bit_int_eq_self)

lemma relu_term:
  "c_max (scast x) 0 * scast y = (word_of_int (max (sint x) 0 * sint y) :: int32_t)"
  for x y :: int16_t
proof -
  have "sint (scast x :: int32_t) = sint x"
    by (rule sint_up_scast) (simp add: is_up)
  then have "c_max (scast x) 0 = (word_of_int (max (sint x) 0) :: int32_t)"
    by (simp add: c_max_def max_def)
  then show ?thesis by simp
qed

lemma OutputLayer_scalar_total:
  "OutputLayer_scalar g w stm_acc xstm_acc =
   c_div (c_div (word_of_int (output_total g w stm_acc xstm_acc)) QUANTIZATION_PRECISION_IN)
     QUANTIZATION_PRECISION_OUT"
proof -
  have "OUTPUT_BIAS w * QUANTIZATION_PRECISION_IN = word_of_int (sint (OUTPUT_BIAS w) * 32)"
    by (simp add: QUANTIZATION_PRECISION_IN_def)
  then show ?thesis
    by (simp add: OutputLayer_scalar_sum output_total_def relu_term)
qed

lemma sdiv_between:
  fixes k l :: int
  assumes "0 < l"
  shows "min k 0 \<le> k sdiv l \<and> k sdiv l \<le> max k 0"
proof -
  have nn: "0 \<le> \<bar>k\<bar> div l"
    using assms by (simp add: pos_imp_zdiv_nonneg_iff)
  have "\<bar>k\<bar> div l \<le> \<bar>k\<bar> div 1"
    using assms by (intro zdiv_mono2) simp_all
  then have le: "\<bar>k\<bar> div l \<le> \<bar>k\<bar>" by simp
  have "k sdiv l = sgn k * (\<bar>k\<bar> div l)"
    using assms by (simp add: signed_divide_int_def)
  then show ?thesis
    using nn le by (cases "0 \<le> k") (auto simp: sgn_if)
qed

lemma sdiv_sdiv: "k sdiv 32 sdiv 512 = k sdiv 16384" for k :: int
proof -
  have d: "\<bar>k\<bar> div 32 div 512 = \<bar>k\<bar> div 16384"
    by (simp add: div_mult2_eq [symmetric])
  have n: "0 \<le> \<bar>k\<bar> div 32" by simp
  show ?thesis
  proof (cases "\<bar>k\<bar> div 32 = 0")
    case True
    with d show ?thesis by (simp add: signed_divide_int_def)
  next
    case False
    with n have pos: "0 < \<bar>k\<bar> div 32" by simp
    then have "k \<noteq> 0" by auto
    then have "\<bar>sgn k * (\<bar>k\<bar> div 32)\<bar> = \<bar>k\<bar> div 32" "sgn (sgn k * (\<bar>k\<bar> div 32)) = sgn k"
      using pos by (simp_all add: abs_mult sgn_mult)
    with d show ?thesis by (simp add: signed_divide_int_def)
  qed
qed

text \<open>
  C3, as the code has it. Whenever the total
  \<open>outputBias * 32 + \<Sum> max(stm[i], 0) * hiddenWeights[i] + \<Sum> max(xstm[i], 0) * hiddenWeights[i + N_HIDDEN]\<close>,
  taken over the integers, fits in a 32-bit \<open>int\<close>, \<open>OutputLayer\<close> returns its quotient
  by \<open>32 * 512\<close>, truncated towards zero (the two divisions by 32 and by 512 are one
  division by their product).
\<close>

theorem OutputLayer_quotient:
  assumes "- (2 ^ 31) \<le> output_total g w stm_acc xstm_acc"
    and "output_total g w stm_acc xstm_acc < 2 ^ 31"
  shows "sint (OutputLayer Scalar g w stm_acc xstm_acc) =
         output_total g w stm_acc xstm_acc sdiv (32 * 512)"
proof -
  let ?t = "output_total g w stm_acc xstm_acc"
  have t: "sint (word_of_int ?t :: int32_t) = ?t"
    using assms by (rule sint_int32)
  have b1: "min ?t 0 \<le> ?t sdiv 32 \<and> ?t sdiv 32 \<le> max ?t 0"
    by (rule sdiv_between) simp
  with assms have "- (2 ^ 31) \<le> ?t sdiv 32" "?t sdiv 32 < 2 ^ 31" by auto
  then have q1: "sint (word_of_int (?t sdiv 32) :: int32_t) = ?t sdiv 32"
    by (rule sint_int32)
  have "min (?t sdiv 32) 0 \<le> ?t sdiv 32 sdiv 512 \<and> ?t sdiv 32 sdiv 512 \<le> max (?t sdiv 32) 0"
    by (rule sdiv_between) simp
  with b1 assms
  have "- (2 ^ 31) \<le> ?t sdiv 32 sdiv 512" "?t sdiv 32 sdiv 512 < 2 ^ 31" by auto
  then have q2: "sint (word_of_int (?t sdiv 32 sdiv 512) :: int32_t) = ?t sdiv 32 sdiv 512"
    by (rule sint_int32)
  have "sint (OutputLayer Scalar g w stm_acc xstm_acc) = ?t sdiv 32 sdiv 512"
    by (simp add: OutputLayer_def OutputLayer_scalar_total c_div_def t q1 q2
        QUANTIZATION_PRECISION_IN_def QUANTIZATION_PRECISION_OUT_def)
  then show ?thesis by (simp add: sdiv_sdiv)
qed

theorem OutputLayer_quotient_witness:
  "- (2 ^ 31) \<le> output_total ex_geometry16 ex_weights16 ex_stm16 ex_xstm16
   \<and> output_total ex_geometry16 ex_weights16 ex_stm16 ex_xstm16 < 2 ^ 31
   \<and> output_total ex_geometry16 ex_weights16 ex_stm16 ex_xstm16 = - 3406530
   \<and> sint (OutputLayer Scalar ex_geometry16 ex_weights16 ex_stm16 ex_xstm16) = - 207"
proof -
  have t: "output_total ex_geometry16 ex_weights16 ex_stm16 ex_xstm16 = - 3406530"
    by code_simp
  have lo: "- (2 ^ 31) \<le> output_total ex_geometry16 ex_weights16 ex_stm16 ex_xstm16"
    and hi: "output_total ex_geometry16 ex_weights16 ex_stm16 ex_xstm16 < 2 ^ 31"
    unfolding t by simp_all
  have "(- 3406530 :: int) sdiv (32 * 512) = - 207"
    by (simp add: signed_divide_int_def)
  with OutputLayer_quotient [OF lo hi] t
  have "sint (OutputLayer Scalar ex_geometry16 ex_weights16 ex_stm16 ex_xstm16) = - 207"
    by simp
  with lo hi t show ?thesis by simp
qed

text \<open>
  Without that proviso the claim fails: with sixteen lanes, every lane of both
  Accumulators and every hidden weight 32767 and no bias, the total is 34357641248, which
  is beyond a 32-bit \<open>int\<close>; its quotient by \<open>32 * 512\<close> is 2097024, and the kernel
  returns -127.
\<close>

theorem OutputLayer_overflow_counterexample:
  "output_ok ex_geometry16 ex_weights_max ex_acc_max ex_acc_max
   \<and> output_total ex_geometry16 ex_weights_max ex_acc_max ex_acc_max = 34357641248
   \<and> output_total ex_geometry16 ex_weights_max ex_acc_max ex_acc_max sdiv (32 * 512) = 2097024
   \<and> sint (OutputLayer Scalar ex_geometry16 ex_weights_max ex_acc_max ex_acc_max) = - 127
   \<and> sint (OutputLayer Scalar ex_geometry16 ex_weights_max ex_acc_max ex_acc_max) \<noteq>
       output_total ex_geometry16 ex_weights_max ex_acc_max ex_acc_max sdiv (32 * 512)"
proof -
  have ok: "output_ok ex_geometry16 ex_weights_max ex_acc_max ex_acc_max"
    by (simp add: output_ok_def ex_geometry16_def ex_weights_max_def ex_acc_max_def)
  have t: "output_total ex_geometry16 ex_weights_max ex_acc_max ex_acc_max = 34357641248"
    by code_simp
  have q: "(34357641248 :: int) sdiv (32 * 512) = 2097024"
    by (simp add: signed_divide_int_def)
  have v: "sint (OutputLayer Scalar ex_geometry16 ex_weights_max ex_acc_max ex_acc_max) = - 127"
    by code_simp
  show ?thesis
    unfolding t v using ok q by simp
qed

subsection \<open>The loader\<close>

lemma load_loop:
  assumes rd_wr: "\<And>v w. rd (wr v w) = v"
    and wr_wr: "\<And>v v' w. wr v (wr v' w) = wr v w"
    and wr_rd: "\<And>w. wr (rd w) w = w"
    and n: "n \<le> length (rd w0)"
  shows "fold (\<lambda>j (w, data). (wr ((rd w)[j := f data]) w, data + 1)) [0..<n] (w0, d0) =
         (wr (map (\<lambda>j. f (d0 + j)) [0..<n] @ drop n (rd w0)) w0, d0 + n)"
  using n
proof (induction n)
  case 0
  show ?case by (simp add: wr_rd)
next
  case (Suc n)
  then have k: "n < length (rd w0)" by simp
  have d: "drop n (rd w0) = rd w0 ! n # drop (Suc n) (rd w0)"
    using k by (rule Cons_nth_drop_Suc [symmetric])
  have "(map (\<lambda>j. f (d0 + j)) [0..<n] @ drop n (rd w0))[n := f (d0 + n)] =
        map (\<lambda>j. f (d0 + j)) [0..<Suc n] @ drop (Suc n) (rd w0)"
    by (simp add: list_update_append d)
  then show ?case
    using Suc by (simp add: rd_wr wr_wr)
qed

lemma LoadDefaultNN_weights:
  assumes "weights_ok g w"
  shows "snd (LoadDefaultNN g EmbedData w) =
    \<lparr>FEATURE_WEIGHTS = map (\<lambda>j. LoadWeight_at g EmbedData (3 + j) QUANTIZATION_PRECISION_IN)
        [0..<N_FEATURES g * N_HIDDEN g],
     HIDDEN_BIASES = map (\<lambda>j. LoadWeight_at g EmbedData
          (3 + N_FEATURES g * N_HIDDEN g + j) QUANTIZATION_PRECISION_IN)
        [0..<N_HIDDEN g],
     HIDDEN_WEIGHTS = map (\<lambda>j. LoadWeight_at g EmbedData
          (3 + N_FEATURES g * N_HIDDEN g + N_HIDDEN g + j) QUANTIZATION_PRECISION_OUT)
        [0..<N_HIDDEN g * 2],
     OUTPUT_BIAS = round_int32_at g EmbedData
        (3 + N_FEATURES g * N_HIDDEN g + N_HIDDEN g + N_HIDDEN g * 2) QUANTIZATION_PRECISION_OUT,
     DEFAULT_NN_HASH = read_uint64 EmbedData 4\<rparr>"
proof -
  let ?w1 = "w\<lparr>DEFAULT_NN_HASH := read_uint64 EmbedData 4\<rparr>"
  let ?n1 = "N_FEATURES g * N_HIDDEN g" and ?n2 = "N_HIDDEN g" and ?n3 = "N_HIDDEN g * 2"
  let ?f1 = "\<lambda>data. LoadWeight_at g EmbedData data QUANTIZATION_PRECISION_IN"
  let ?f3 = "\<lambda>data. LoadWeight_at g EmbedData data QUANTIZATION_PRECISION_OUT"
  have lens: "length (FEATURE_WEIGHTS w) = ?n1" "length (HIDDEN_BIASES w) = ?n2"
    "length (HIDDEN_WEIGHTS w) = ?n3"
    using assms by (simp_all add: weights_ok_def)
  let ?w2 = "?w1\<lparr>FEATURE_WEIGHTS := map (\<lambda>j. ?f1 (3 + j)) [0..<?n1]\<rparr>"
  have l1: "fold (\<lambda>j (w, data). (w\<lparr>FEATURE_WEIGHTS := (FEATURE_WEIGHTS w)[j := ?f1 data]\<rparr>, data + 1))
      [0..<?n1] (?w1, 3) = (?w2, 3 + ?n1)"
    using load_loop [where rd = FEATURE_WEIGHTS and wr = "\<lambda>v w. w\<lparr>FEATURE_WEIGHTS := v\<rparr>"
        and n = ?n1 and ?w0.0 = ?w1 and f = ?f1 and ?d0.0 = 3]
    by (simp add: lens)
  let ?w3 = "?w2\<lparr>HIDDEN_BIASES := map (\<lambda>j. ?f1 (3 + ?n1 + j)) [0..<?n2]\<rparr>"
  have l2: "fold (\<lambda>j (w, data). (w\<lparr>HIDDEN_BIASES := (HIDDEN_BIASES w)[j := ?f1 data]\<rparr>, data + 1))
      [0..<?n2] (?w2, 3 + ?n1) = (?w3, 3 + ?n1 + ?n2)"
    using load_loop [where rd = HIDDEN_BIASES and wr = "\<lambda>v w. w\<lparr>HIDDEN_BIASES := v\<rparr>"
        and n = ?n2 and ?w0.0 = ?w2 and f = ?f1 and ?d0.0 = "3 + ?n1"]
    by (simp add: lens)
  let ?w4 = "?w3\<lparr>HIDDEN_WEIGHTS := map (\<lambda>j. ?f3 (3 + ?n1 + ?n2 + j)) [0..<?n3]\<rparr>"
  have l3: "fold (\<lambda>j (w, data). (w\<lparr>HIDDEN_WEIGHTS := (HIDDEN_WEIGHTS w)[j := ?f3 data]\<rparr>, data + 1))
      [0..<?n3] (?w3, 3 + ?n1 + ?n2) = (?w4, 3 + ?n1 + ?n2 + ?n3)"
    using load_loop [where rd = HIDDEN_WEIGHTS and wr = "\<lambda>v w. w\<lparr>HIDDEN_WEIGHTS := v\<rparr>"
        and n = ?n3 and ?w0.0 = ?w3 and f = ?f3 and ?d0.0 = "3 + ?n1 + ?n2"]
    by (simp add: lens)
  have "snd (LoadDefaultNN g EmbedData w) =
      ?w4\<lparr>OUTPUT_BIAS := round_int32_at g EmbedData (3 + ?n1 + ?n2 + ?n3)
        QUANTIZATION_PRECISION_OUT\<rparr>"
    unfolding LoadDefaultNN_def Let_def l1 prod.case l2 l3 by simp
  then show ?thesis by simp
qed

lemma LoadDefaultNN_output:
  "fst (LoadDefaultNN g EmbedData w) =
     (if magic_mismatch EmbedData
      then [''info string Berserk was not built using a standard net, use with caution!'']
      else [])"
  by (simp add: LoadDefaultNN_def Let_def split_beta)

lemma read_float_at: "read_float g EmbedData k = float_at g EmbedData (4 * k)"
  by (simp add: read_float_def float_at_def)

lemma little_endian:
  "foldr (\<lambda>b hash. ucast b + 256 * hash) bytes (0 :: uint64_t) =
   (\<Sum>k<length bytes. ucast (bytes ! k) * 256 ^ k)"
  for bytes :: "8 word list"
proof (induction bytes)
  case Nil
  show ?case by simp
next
  case (Cons b bytes)
  show ?case
    by (simp add: Cons sum.lessThan_Suc_shift sum_distrib_left mult.assoc mult.left_commute
        del: sum.lessThan_Suc)
qed

lemma LoadWeight_at_payload:
  "length magic = 4 \<Longrightarrow>
   LoadWeight_at g (magic @ payload) (Suc k) p = LoadWeight_at g payload k p"
  by (simp add: LoadWeight_at_def read_float_def)

lemma round_int32_at_payload:
  "length magic = 4 \<Longrightarrow>
   round_int32_at g (magic @ payload) (Suc k) p = round_int32_at g payload k p"
  by (simp add: round_int32_at_def read_float_def)

lemma read_uint64_payload:
  "length magic = 4 \<Longrightarrow> read_uint64 (magic @ payload) 4 = read_uint64 payload 0"
  by (simp add: read_uint64_def)

lemma magic_mismatch_iff:
  assumes "length magic = 4"
  shows "magic_mismatch (magic @ payload) \<longleftrightarrow> magic \<noteq> map of_char ''BRKR''"
proof -
  from assms obtain a b c d where "magic = [a, b, c, d]" by (rule four_lanes)
  then show ?thesis by (auto simp: magic_mismatch_def)
qed

lemma weights_ok_LoadDefaultNN:
  "weights_ok g w \<Longrightarrow> weights_ok g (snd (LoadDefaultNN g EmbedData w))"
  by (simp add: LoadDefaultNN_weights) (simp add: weights_ok_def)

lemma LoadDefaultNN_payload:
  assumes "weights_ok g w" and "length magic = 4"
  shows "snd (LoadDefaultNN g (magic @ payload) w) =
    \<lparr>FEATURE_WEIGHTS = map (\<lambda>j. LoadWeight_at g payload (2 + j) QUANTIZATION_PRECISION_IN)
        [0..<N_FEATURES g * N_HIDDEN g],
     HIDDEN_BIASES = map (\<lambda>j. LoadWeight_at g payload
          (2 + N_FEATURES g * N_HIDDEN g + j) QUANTIZATION_PRECISION_IN)
        [0..<N_HIDDEN g],
     HIDDEN_WEIGHTS = map (\<lambda>j. LoadWeight_at g payload
          (2 + N_FEATURES g * N_HIDDEN g + N_HIDDEN g + j) QUANTIZATION_PRECISION_OUT)
        [0..<2 * N_HIDDEN g],
     OUTPUT_BIAS = round_int32_at g payload
        (2 + N_FEATURES g * N_HIDDEN g + N_HIDDEN g + 2 * N_HIDDEN g) QUANTIZATION_PRECISION_OUT,
     DEFAULT_NN_HASH = read_uint64 payload 0\<rparr>"
proof -
  have three: "3 + k = Suc (2 + k)" for k :: nat by simp
  show ?thesis
    by (simp only: LoadDefaultNN_weights [OF assms(1)] three add_Suc
        LoadWeight_at_payload [OF assms(2)] round_int32_at_payload [OF assms(2)]
        read_uint64_payload [OF assms(2)] mult.commute [of "N_HIDDEN g" 2])
qed

text \<open>
  C5. Let the resource be four magic bytes followed by a payload. \<open>LoadDefaultNN\<close>
  prints nothing exactly when the magic is \<open>BRKR\<close>, and one line otherwise. In both
  cases it goes on to fill the global arrays from the payload, whatever they held: the
  feature weights from the floats 2, 3, ... of the payload (the hash is its first eight
  bytes, two floats wide), then the hidden biases, the hidden weights and the output
  bias from the floats that follow, and the hash from the first eight bytes. The store it
  leaves is therefore the one it leaves for the same payload behind the expected magic:
  a magic that does not match is a warning and never stops or changes the load.
\<close>

theorem LoadDefaultNN_magic:
  assumes "weights_ok g w" and "length magic = 4"
  shows "(fst (LoadDefaultNN g (magic @ payload) w) = [] \<longleftrightarrow> magic = map of_char ''BRKR'')
       \<and> length (fst (LoadDefaultNN g (magic @ payload) w)) \<le> 1
       \<and> snd (LoadDefaultNN g (magic @ payload) w) =
           \<lparr>FEATURE_WEIGHTS =
              map (\<lambda>j. LoadWeight_at g payload (2 + j) QUANTIZATION_PRECISION_IN)
                [0..<N_FEATURES g * N_HIDDEN g],
            HIDDEN_BIASES =
              map (\<lambda>j. LoadWeight_at g payload
                    (2 + N_FEATURES g * N_HIDDEN g + j) QUANTIZATION_PRECISION_IN)
                [0..<N_HIDDEN g],
            HIDDEN_WEIGHTS =
              map (\<lambda>j. LoadWeight_at g payload
                    (2 + N_FEATURES g * N_HIDDEN g + N_HIDDEN g + j) QUANTIZATION_PRECISION_OUT)
                [0..<2 * N_HIDDEN g],
            OUTPUT_BIAS = round_int32_at g payload
              (2 + N_FEATURES g * N_HIDDEN g + N_HIDDEN g + 2 * N_HIDDEN g)
              QUANTIZATION_PRECISION_OUT,
            DEFAULT_NN_HASH = read_uint64 payload 0\<rparr>
       \<and> snd (LoadDefaultNN g (magic @ payload) w) =
           snd (LoadDefaultNN g (map of_char ''BRKR'' @ payload) w)"
proof -
  have m: "length (map of_char ''BRKR'' :: 8 word list) = 4" by simp
  have out: "fst (LoadDefaultNN g (magic @ payload) w) = [] \<longleftrightarrow> magic = map of_char ''BRKR''"
    by (simp only: LoadDefaultNN_output magic_mismatch_iff [OF assms(2)]) simp
  have one: "length (fst (LoadDefaultNN g (magic @ payload) w)) \<le> 1"
    by (simp add: LoadDefaultNN_output)
  note store = LoadDefaultNN_payload [OF assms(1,2), of payload]
  have same: "snd (LoadDefaultNN g (magic @ payload) w) =
      snd (LoadDefaultNN g (map of_char ''BRKR'' @ payload) w)"
    by (simp only: store LoadDefaultNN_payload [OF assms(1) m, of payload])
  from out one store same show ?thesis by blast
qed

theorem LoadDefaultNN_magic_witness:
  "weights_ok ex_geometry1 ex_globals1 \<and> length [78, 69, 84, 33 :: 8 word] = 4
   \<and> fst (LoadDefaultNN ex_geometry1 ex_resource_custom ex_globals1) \<noteq> []
   \<and> fst (LoadDefaultNN ex_geometry1 ex_resource ex_globals1) = []
   \<and> snd (LoadDefaultNN ex_geometry1 ex_resource_custom ex_globals1) =
       \<lparr>FEATURE_WEIGHTS = [32], HIDDEN_BIASES = [- 64], HIDDEN_WEIGHTS = [256, 128],
        OUTPUT_BIAS = 768, DEFAULT_NN_HASH = 0x0807060504030201\<rparr>
   \<and> snd (LoadDefaultNN ex_geometry1 ex_resource_custom ex_globals1) =
       snd (LoadDefaultNN ex_geometry1 ex_resource ex_globals1)"
proof -
  have ok: "weights_ok ex_geometry1 ex_globals1"
    by (simp add: weights_ok_def ex_geometry1_def ex_globals1_def)
  have c: "length [78, 69, 84, 33 :: 8 word] = 4" and b: "length [66, 82, 75, 82 :: 8 word] = 4"
    by simp_all
  have brkr: "map of_char ''BRKR'' = [66, 82, 75, 82 :: 8 word]"
    by simp
  note custom = LoadDefaultNN_magic [OF ok c, of ex_payload, unfolded brkr]
  note standard = LoadDefaultNN_magic [OF ok b, of ex_payload, unfolded brkr]
  have n: "N_FEATURES ex_geometry1 = 1" "N_HIDDEN ex_geometry1 = 1"
    by (simp_all add: ex_geometry1_def)
  have fw: "LoadWeight_at ex_geometry1 ex_payload 2 QUANTIZATION_PRECISION_IN = 32"
    and hb: "LoadWeight_at ex_geometry1 ex_payload 3 QUANTIZATION_PRECISION_IN = - 64"
    and hw0: "LoadWeight_at ex_geometry1 ex_payload 4 QUANTIZATION_PRECISION_OUT = 256"
    and hw1: "LoadWeight_at ex_geometry1 ex_payload 5 QUANTIZATION_PRECISION_OUT = 128"
    by (simp_all add: LoadWeight_at_def LoadWeight_def read_float_def ex_geometry1_def
        ex_payload_def ieee_finite_def ieee_single_def c_round_def
        QUANTIZATION_PRECISION_IN_def QUANTIZATION_PRECISION_OUT_def)
  have ob: "round_int32_at ex_geometry1 ex_payload 6 QUANTIZATION_PRECISION_OUT = 768"
    by (simp add: round_int32_at_def round_int32_def read_float_def ex_geometry1_def
        ex_payload_def ieee_finite_def ieee_single_def c_round_def QUANTIZATION_PRECISION_OUT_def)
  have hash: "read_uint64 ex_payload 0 = 0x0807060504030201"
    by code_simp
  have upt2: "[0..<2] = [0, 1 :: nat]"
    by (simp add: upt_rec)
  have fw': "LoadWeight_at ex_geometry1 ex_payload (Suc (Suc 0)) QUANTIZATION_PRECISION_IN = 32"
    using fw by (simp only: numeral_2_eq_2)
  have store: "snd (LoadDefaultNN ex_geometry1 ex_resource_custom ex_globals1) =
       \<lparr>FEATURE_WEIGHTS = [32], HIDDEN_BIASES = [- 64], HIDDEN_WEIGHTS = [256, 128],
        OUTPUT_BIAS = 768, DEFAULT_NN_HASH = 0x0807060504030201\<rparr>"
    using custom [THEN conjunct2, THEN conjunct2, THEN conjunct1]
    by (simp add: ex_resource_custom_def n upt2 fw' hb hw0 hw1 ob hash)
  from custom standard ok store show ?thesis
    by (simp add: ex_resource_def ex_resource_custom_def)
qed

lemma LoadWeight_fits:
  assumes "fits_int16 g EmbedData (4 * k) (real_of_int (sint p))"
  shows "sint (LoadWeight_at g EmbedData k p) =
         c_round (float_at g EmbedData (4 * k) * real_of_int (sint p))"
proof -
  let ?r = "c_round (float_at g EmbedData (4 * k) * real_of_int (sint p))"
  have fin: "FloatFinite g (take 4 (drop (4 * k) EmbedData))"
    and lo: "- 32768 \<le> ?r" and hi: "?r \<le> 32767"
    using assms by (simp_all add: fits_int16_def)
  have "sint (word_of_int ?r :: int16_t) = ?r"
    using lo hi by (simp add: sint_sbintrunc' signed_take_bit_int_eq_self)
  moreover have "- (2 ^ 31) \<le> ?r \<and> ?r < 2 ^ 31"
    using lo hi by simp
  ultimately show ?thesis
    using fin by (simp add: LoadWeight_at_def LoadWeight_def read_float_at Let_def)
qed

lemma round_int32_fits:
  assumes "fits_int32 g EmbedData (4 * k) (real_of_int (sint p))"
  shows "sint (round_int32_at g EmbedData k p) =
         c_round (float_at g EmbedData (4 * k) * real_of_int (sint p))"
proof -
  let ?r = "c_round (float_at g EmbedData (4 * k) * real_of_int (sint p))"
  have fin: "FloatFinite g (take 4 (drop (4 * k) EmbedData))"
    and lo: "- 2147483648 \<le> ?r" and hi: "?r \<le> 2147483647"
    using assms by (simp_all add: fits_int32_def)
  have r: "- (2 ^ 31) \<le> ?r \<and> ?r < 2 ^ 31"
    using lo hi by simp
  then have "sint (word_of_int ?r :: int32_t) = ?r"
    by (simp add: sint_int32)
  then show ?thesis
    using fin r by (simp add: round_int32_at_def round_int32_def read_float_at Let_def)
qed

text \<open>
  C6. Let the arrays have their declared sizes and let the resource hold every float the
  loader reads, each of them finite and with a rounded product that fits the integer it
  is stored in. The floats are taken in order from byte 12 on: feature weight \<open>j\<close> is
  the float at byte \<open>12 + 4 * j\<close>, scaled by 32 and rounded, stored as a 16-bit signed
  integer; then the hidden biases, likewise; then the \<open>2 * N_HIDDEN\<close> hidden weights,
  scaled by 512 and rounded, as 16-bit signed integers; then the output bias, scaled by
  512 and rounded, as a 32-bit signed integer. The hash is the 64-bit number whose bytes,
  lowest first, are bytes 4 to 11 of the resource.
\<close>

theorem LoadDefaultNN_layout:
  assumes "weights_ok g w" and "resource_ok g EmbedData" and "resource_fits g EmbedData"
  shows "(\<forall>j < N_FEATURES g * N_HIDDEN g.
            sint (FEATURE_WEIGHTS (snd (LoadDefaultNN g EmbedData w)) ! j) =
            c_round (float_at g EmbedData (12 + 4 * j) * 32))
       \<and> (\<forall>j < N_HIDDEN g.
            sint (HIDDEN_BIASES (snd (LoadDefaultNN g EmbedData w)) ! j) =
            c_round (float_at g EmbedData (12 + 4 * (N_FEATURES g * N_HIDDEN g + j)) * 32))
       \<and> (\<forall>j < 2 * N_HIDDEN g.
            sint (HIDDEN_WEIGHTS (snd (LoadDefaultNN g EmbedData w)) ! j) =
            c_round
              (float_at g EmbedData (12 + 4 * (N_FEATURES g * N_HIDDEN g + N_HIDDEN g + j)) * 512))
       \<and> sint (OUTPUT_BIAS (snd (LoadDefaultNN g EmbedData w))) =
            c_round
              (float_at g EmbedData
                 (12 + 4 * (N_FEATURES g * N_HIDDEN g + N_HIDDEN g + 2 * N_HIDDEN g)) * 512)
       \<and> DEFAULT_NN_HASH (snd (LoadDefaultNN g EmbedData w)) =
            (\<Sum>k<8. ucast (EmbedData ! (4 + k)) * 256 ^ k)
       \<and> weights_ok g (snd (LoadDefaultNN g EmbedData w))"
proof -
  let ?w = "snd (LoadDefaultNN g EmbedData w)"
  let ?n1 = "N_FEATURES g * N_HIDDEN g" and ?n2 = "N_HIDDEN g"
  have p: "real_of_int (sint QUANTIZATION_PRECISION_IN) = 32"
    "real_of_int (sint QUANTIZATION_PRECISION_OUT) = 512"
    "(signed QUANTIZATION_PRECISION_IN :: real) = 32"
    "(signed QUANTIZATION_PRECISION_OUT :: real) = 512"
    by (simp_all add: QUANTIZATION_PRECISION_IN_def QUANTIZATION_PRECISION_OUT_def)
  have off: "4 * (3 + k) = 12 + 4 * k" for k :: nat by simp
  have fw: "sint (FEATURE_WEIGHTS ?w ! j) = c_round (float_at g EmbedData (12 + 4 * j) * 32)"
    if j: "j < ?n1" for j
  proof -
    have "fits_int16 g EmbedData (4 * (3 + j)) (real_of_int (sint QUANTIZATION_PRECISION_IN))"
      using assms(3) j by (simp add: resource_fits_def off p)
    from LoadWeight_fits [OF this] show ?thesis
      using j by (simp add: LoadDefaultNN_weights [OF assms(1)] p)
  qed
  have hb: "sint (HIDDEN_BIASES ?w ! j) =
      c_round (float_at g EmbedData (12 + 4 * (?n1 + j)) * 32)"
    if j: "j < ?n2" for j
  proof -
    have "fits_int16 g EmbedData (4 * (3 + (?n1 + j))) (real_of_int (sint QUANTIZATION_PRECISION_IN))"
      using assms(3) j by (simp add: resource_fits_def off p)
    from LoadWeight_fits [OF this] show ?thesis
      using j by (simp add: LoadDefaultNN_weights [OF assms(1)] p add.assoc)
  qed
  have hw: "sint (HIDDEN_WEIGHTS ?w ! j) =
      c_round (float_at g EmbedData (12 + 4 * (?n1 + ?n2 + j)) * 512)"
    if j: "j < 2 * ?n2" for j
  proof -
    have "fits_int16 g EmbedData (4 * (3 + (?n1 + ?n2 + j)))
        (real_of_int (sint QUANTIZATION_PRECISION_OUT))"
      using assms(3) j by (simp add: resource_fits_def off p)
    from LoadWeight_fits [OF this] show ?thesis
      using j by (simp add: LoadDefaultNN_weights [OF assms(1)] p add.assoc)
  qed
  have ob: "sint (OUTPUT_BIAS ?w) =
      c_round (float_at g EmbedData (12 + 4 * (?n1 + ?n2 + 2 * ?n2)) * 512)"
  proof -
    have "fits_int32 g EmbedData (4 * (3 + (?n1 + ?n2 + 2 * ?n2)))
        (real_of_int (sint QUANTIZATION_PRECISION_OUT))"
      using assms(3) by (simp add: resource_fits_def off p)
    from round_int32_fits [OF this] show ?thesis
      by (simp add: LoadDefaultNN_weights [OF assms(1)] p add.assoc mult.commute [of "N_HIDDEN g" 2])
  qed
  have long: "12 \<le> length EmbedData"
    using assms(2) by (simp add: resource_ok_def)
  then have len: "length (take 8 (drop 4 EmbedData)) = 8" by simp
  have "DEFAULT_NN_HASH ?w = (\<Sum>k<length (take 8 (drop 4 EmbedData)).
      ucast (take 8 (drop 4 EmbedData) ! k) * 256 ^ k)"
    by (simp only: LoadDefaultNN_weights [OF assms(1)] read_uint64_def little_endian) simp
  also have "\<dots> = (\<Sum>k<8. ucast (EmbedData ! (4 + k)) * 256 ^ k)"
    unfolding len using long by (intro sum.cong refl) simp
  finally have hash: "DEFAULT_NN_HASH ?w = (\<Sum>k<8. ucast (EmbedData ! (4 + k)) * 256 ^ k)" .
  from fw hb hw ob hash weights_ok_LoadDefaultNN [OF assms(1)] show ?thesis by blast
qed

theorem LoadDefaultNN_layout_witness:
  "weights_ok ex_geometry1 ex_globals1 \<and> resource_ok ex_geometry1 ex_resource
   \<and> resource_fits ex_geometry1 ex_resource
   \<and> map sint (FEATURE_WEIGHTS (snd (LoadDefaultNN ex_geometry1 ex_resource ex_globals1))) = [32]
   \<and> map sint (HIDDEN_BIASES (snd (LoadDefaultNN ex_geometry1 ex_resource ex_globals1))) = [- 64]
   \<and> map sint (HIDDEN_WEIGHTS (snd (LoadDefaultNN ex_geometry1 ex_resource ex_globals1))) = [256, 128]
   \<and> sint (OUTPUT_BIAS (snd (LoadDefaultNN ex_geometry1 ex_resource ex_globals1))) = 768
   \<and> DEFAULT_NN_HASH (snd (LoadDefaultNN ex_geometry1 ex_resource ex_globals1)) = 0x0807060504030201"
proof -
  let ?w = "snd (LoadDefaultNN ex_geometry1 ex_resource ex_globals1)"
  have ok: "weights_ok ex_geometry1 ex_globals1"
    by (simp add: weights_ok_def ex_geometry1_def ex_globals1_def)
  have res: "resource_ok ex_geometry1 ex_resource"
    by (simp add: resource_ok_def ex_geometry1_def ex_resource_def ex_payload_def)
  have n: "N_FEATURES ex_geometry1 = 1" "N_HIDDEN ex_geometry1 = 1"
    by (simp_all add: ex_geometry1_def)
  have f: "float_at ex_geometry1 ex_resource 12 = 1" "float_at ex_geometry1 ex_resource 16 = - 2"
    "float_at ex_geometry1 ex_resource 20 = 1 / 2" "float_at ex_geometry1 ex_resource 24 = 1 / 4"
    "float_at ex_geometry1 ex_resource 28 = 3 / 2"
    by (simp_all add: float_at_def ex_geometry1_def ex_resource_def ex_payload_def ieee_single_def)
  have fin: "FloatFinite ex_geometry1 (take 4 (drop 12 ex_resource))"
    "FloatFinite ex_geometry1 (take 4 (drop 16 ex_resource))"
    "FloatFinite ex_geometry1 (take 4 (drop 20 ex_resource))"
    "FloatFinite ex_geometry1 (take 4 (drop 24 ex_resource))"
    "FloatFinite ex_geometry1 (take 4 (drop 28 ex_resource))"
    by (simp_all add: ex_geometry1_def ex_resource_def ex_payload_def ieee_finite_def)
  have two: "j < 2 \<longleftrightarrow> j = 0 \<or> j = 1" for j :: nat by auto
  have fits: "resource_fits ex_geometry1 ex_resource"
    by (auto simp: resource_fits_def fits_int16_def fits_int32_def n two f fin c_round_def)
  note layout = LoadDefaultNN_layout [OF ok res fits]
  have fw: "sint (FEATURE_WEIGHTS ?w ! 0) = 32"
    using layout [THEN conjunct1, rule_format, of 0] by (simp add: n f c_round_def)
  have hb: "sint (HIDDEN_BIASES ?w ! 0) = - 64"
    using layout [THEN conjunct2, THEN conjunct1, rule_format, of 0] by (simp add: n f c_round_def)
  have hw0: "sint (HIDDEN_WEIGHTS ?w ! 0) = 256"
    using layout [THEN conjunct2, THEN conjunct2, THEN conjunct1, rule_format, of 0]
    by (simp add: n f c_round_def)
  have hw1: "sint (HIDDEN_WEIGHTS ?w ! 1) = 128"
    using layout [THEN conjunct2, THEN conjunct2, THEN conjunct1, rule_format, of 1]
    by (simp add: n f c_round_def)
  have ob: "sint (OUTPUT_BIAS ?w) = 768"
    using layout [THEN conjunct2, THEN conjunct2, THEN conjunct2, THEN conjunct1]
    by (simp add: n f c_round_def)
  have "(\<Sum>k<8. ucast (ex_resource ! (4 + k)) * 256 ^ k) = (0x0807060504030201 :: uint64_t)"
    by code_simp
  then have hash: "DEFAULT_NN_HASH ?w = 0x0807060504030201"
    using layout [THEN conjunct2, THEN conjunct2, THEN conjunct2, THEN conjunct2, THEN conjunct1]
    by (simp only:)
  have lens: "length (FEATURE_WEIGHTS ?w) = 1" "length (HIDDEN_BIASES ?w) = 1"
    "length (HIDDEN_WEIGHTS ?w) = 2"
    using layout by (simp_all add: weights_ok_def n)
  have "map sint (FEATURE_WEIGHTS ?w) = [32]"
    using lens(1) fw by (cases "FEATURE_WEIGHTS ?w") simp_all
  moreover have "map sint (HIDDEN_BIASES ?w) = [- 64]"
    using lens(2) hb by (cases "HIDDEN_BIASES ?w") simp_all
  moreover have "map sint (HIDDEN_WEIGHTS ?w) = [256, 128]"
  proof (rule nth_equalityI)
    show "length (map sint (HIDDEN_WEIGHTS ?w)) = length [256, 128 :: int]"
      using lens(3) by simp
  next
    fix i
    assume "i < length (map sint (HIDDEN_WEIGHTS ?w))"
    then have i: "i = 0 \<or> i = 1" and l: "i < length (HIDDEN_WEIGHTS ?w)"
      using lens(3) by auto
    from i show "map sint (HIDDEN_WEIGHTS ?w) ! i = [256, 128] ! i"
      using hw0 hw1 l by (auto simp: nth_map [OF l])
  qed
  ultimately show ?thesis
    using ok res fits ob hash by simp
qed

subsection \<open>The quantisation error\<close>

lemma c_round_error: "\<bar>real_of_int (c_round y) - y\<bar> \<le> 1 / 2"
proof (cases "0 \<le> y")
  case True
  then have "c_round y = \<lfloor>y + 1 / 2\<rfloor>" by (simp add: c_round_def)
  then show ?thesis by linarith
next
  case False
  then have "c_round y = - \<lfloor>- y + 1 / 2\<rfloor>" by (simp add: c_round_def)
  then show ?thesis by linarith
qed

text \<open>
  C9. For a value \<open>x\<close> and the precision \<open>p\<close> of the input layer (32) or of the output
  layer (512), if the rounded product \<open>round(x * p)\<close> fits in an \<open>int16_t\<close>, then the
  weight \<open>LoadWeight\<close> stores, divided by \<open>p\<close>, is within \<open>1 / (2 * p)\<close> of \<open>x\<close>.
\<close>

theorem LoadWeight_error:
  assumes "p = QUANTIZATION_PRECISION_IN \<or> p = QUANTIZATION_PRECISION_OUT"
    and "- 32768 \<le> c_round (x * real_of_int (sint p))"
    and "c_round (x * real_of_int (sint p)) \<le> 32767"
  shows "\<bar>real_of_int (sint (LoadWeight x p)) / real_of_int (sint p) - x\<bar>
         \<le> 1 / (2 * real_of_int (sint p))"
proof -
  let ?p = "real_of_int (sint p)"
  let ?r = "c_round (x * ?p)"
  have pos: "0 < ?p"
    using assms(1) by (auto simp: QUANTIZATION_PRECISION_IN_def QUANTIZATION_PRECISION_OUT_def)
  have "sint (word_of_int ?r :: int16_t) = ?r"
    using assms(2,3) by (simp add: sint_sbintrunc' signed_take_bit_int_eq_self)
  moreover have "- (2 ^ 31) \<le> ?r \<and> ?r < 2 ^ 31"
    using assms(2,3) by simp
  ultimately have s: "sint (LoadWeight x p) = ?r"
    by (simp add: LoadWeight_def Let_def)
  have "\<bar>real_of_int ?r / ?p - x\<bar> = \<bar>real_of_int ?r - x * ?p\<bar> / ?p"
    using pos by (simp add: field_simps abs_mult_pos [symmetric])
  also have "\<dots> \<le> (1 / 2) / ?p"
    using c_round_error [of "x * ?p"] by (rule divide_right_mono) (use pos in simp)
  also have "(1 / 2) / ?p = 1 / (2 * ?p)" by simp
  finally show ?thesis by (simp only: s)
qed

theorem LoadWeight_error_witness:
  "- 32768 \<le> c_round (1 / 64 * real_of_int (sint QUANTIZATION_PRECISION_IN))
   \<and> c_round (1 / 64 * real_of_int (sint QUANTIZATION_PRECISION_IN)) \<le> 32767
   \<and> LoadWeight (1 / 64) QUANTIZATION_PRECISION_IN = 1
   \<and> \<bar>real_of_int (sint (LoadWeight (1 / 64) QUANTIZATION_PRECISION_IN))
        / real_of_int (sint QUANTIZATION_PRECISION_IN) - 1 / 64\<bar>
      \<le> 1 / (2 * real_of_int (sint QUANTIZATION_PRECISION_IN))"
proof -
  have r: "c_round (1 / 64 * real_of_int (sint QUANTIZATION_PRECISION_IN)) = 1"
    by (simp add: QUANTIZATION_PRECISION_IN_def c_round_def)
  have lo: "- 32768 \<le> c_round (1 / 64 * real_of_int (sint QUANTIZATION_PRECISION_IN))"
    and hi: "c_round (1 / 64 * real_of_int (sint QUANTIZATION_PRECISION_IN)) \<le> 32767"
    unfolding r by simp_all
  have v: "LoadWeight (1 / 64) QUANTIZATION_PRECISION_IN = 1"
    by (simp add: LoadWeight_def Let_def QUANTIZATION_PRECISION_IN_def c_round_def)
  from LoadWeight_error [OF disjI1 [OF refl] lo hi] lo hi v show ?thesis by blast
qed

end
